theory Spec2Isabelle
  imports Complex_Main "HOL-Library.Word" "HOL-Library.AList"
begin

section \<open>Strings and errors\<close>

text \<open>
  A JavaScript string is a sequence of 16-bit code units. \<open>js\<close> writes a literal:
  \<open>js ''id''\<close> is the string \<^verbatim>\<open>"id"\<close>.
\<close>

type_synonym js_string = "16 word list"

definition js :: "string \<Rightarrow> js_string" where
  "js s = map of_char s"

text \<open>The exceptions the modelled code can meet; a rejected service call is \<open>ServiceError\<close>.\<close>

datatype error =
    SyntaxError
  | TypeError
  | RangeError
  | NotSupportedError
  | IndexSizeError
  | InvalidCharacterError
  | ServiceError

section \<open>The base64 decoder\<close>

text \<open>
  Typed arrays. A read outside the array gives \<^verbatim>\<open>undefined\<close> and a write outside it is
  ignored.
\<close>

type_synonym byte = "8 word"

definition typed_read :: "'a list \<Rightarrow> nat \<Rightarrow> 'a option" where
  "typed_read xs k = (if k < length xs then Some (xs ! k) else None)"

definition typed_store :: "'a list \<Rightarrow> nat \<Rightarrow> 'a \<Rightarrow> 'a list" where
  "typed_store xs k v = (if k < length xs then xs[k := v] else xs)"

text \<open>
  \<^verbatim>\<open>atob\<close> is the browser's forgiving-base64 decode: ASCII whitespace (tab, line feed,
  form feed, carriage return, space) is removed; when the length is then a multiple of
  four, one or two trailing \<^verbatim>\<open>=\<close> are removed; a length of 1 modulo 4 or a code unit
  outside the alphabet \<^verbatim>\<open>A-Z a-z 0-9 + /\<close> throws \<^verbatim>\<open>InvalidCharacterError\<close>; every four
  sextets give three bytes, and a last group of two or three sextets gives one or two
  bytes, its low bits dropped. The result is a binary string, one code unit per byte.
\<close>

definition ascii_whitespace :: "16 word \<Rightarrow> bool" where
  "ascii_whitespace c \<longleftrightarrow> c = 0x09 \<or> c = 0x0A \<or> c = 0x0C \<or> c = 0x0D \<or> c = 0x20"

definition base64_index :: "16 word \<Rightarrow> nat option" where
  "base64_index c =
     (let n = unat c in
      if 65 \<le> n \<and> n \<le> 90 then Some (n - 65)
      else if 97 \<le> n \<and> n \<le> 122 then Some (n - 71)
      else if 48 \<le> n \<and> n \<le> 57 then Some (n + 4)
      else if n = 43 then Some 62
      else if n = 47 then Some 63
      else None)"

definition strip_padding :: "js_string \<Rightarrow> js_string" where
  "strip_padding d =
     (if length d mod 4 = 0
      then (if 2 \<le> length d \<and> last d = 0x3D \<and> last (butlast d) = 0x3D then butlast (butlast d)
            else if d \<noteq> [] \<and> last d = 0x3D then butlast d
            else d)
      else d)"

fun decode_sextets :: "nat list \<Rightarrow> nat list" where
  "decode_sextets (a # b # c # d # rest) =
     (let n = ((a * 64 + b) * 64 + c) * 64 + d
      in n div 65536 # n div 256 mod 256 # n mod 256 # decode_sextets rest)"
| "decode_sextets [a, b, c] =
     (let n = ((a * 64 + b) * 64 + c) div 4 in [n div 256, n mod 256])"
| "decode_sextets [a, b] = [(a * 64 + b) div 16]"
| "decode_sextets rest = []"

definition atob :: "js_string \<Rightarrow> error + js_string" where
  "atob data =
     (let d = strip_padding (filter (\<lambda>c. \<not> ascii_whitespace c) data) in
      if length d mod 4 = 1 then Inl InvalidCharacterError
      else (case those (map base64_index d) of
              None \<Rightarrow> Inl InvalidCharacterError
            | Some sextets \<Rightarrow> Inr (map of_nat (decode_sextets sextets))))"

text \<open>
  \<^verbatim>\<open>function decode(base64)\<close> (lines 54-62). \<^verbatim>\<open>charCodeAt\<close> gives the code unit (\<^verbatim>\<open>NaN\<close>
  outside the string, here \<open>None\<close>), and a store into a \<^verbatim>\<open>Uint8Array\<close> keeps the value
  modulo 256 (0 for \<^verbatim>\<open>NaN\<close>). An exception of \<^verbatim>\<open>atob\<close> leaves \<^verbatim>\<open>decode\<close> uncaught.
\<close>

definition charCodeAt :: "js_string \<Rightarrow> nat \<Rightarrow> 16 word option" where
  "charCodeAt s i = (if i < length s then Some (s ! i) else None)"

definition ToUint8 :: "16 word option \<Rightarrow> byte" where
  "ToUint8 v = (case v of None \<Rightarrow> 0 | Some c \<Rightarrow> ucast c)"

function bytes_loop :: "js_string \<Rightarrow> nat \<Rightarrow> nat \<Rightarrow> byte list \<Rightarrow> byte list" where
  "bytes_loop binaryString len i bytes =
     (if i < len
      then bytes_loop binaryString len (Suc i)
             (typed_store bytes i (ToUint8 (charCodeAt binaryString i)))
      else bytes)"
  by pat_completeness auto
termination
  by (relation "measure (\<lambda>(s, len, i, bytes). len - i)") auto

declare bytes_loop.simps [simp del]

definition decode :: "js_string \<Rightarrow> error + byte list" where
  "decode base64 =
     (case atob base64 of
        Inl e \<Rightarrow> Inl e
      | Inr binaryString \<Rightarrow>
          (let len = length binaryString
           in Inr (bytes_loop binaryString len 0 (replicate len 0))))"

text \<open>
  The standard base64 encoding (RFC 4648, section 4, with padding), as the claim about
  \<^verbatim>\<open>decode\<close> names it: three bytes give four characters, and a last group of one or two
  bytes gives two or three characters and \<^verbatim>\<open>==\<close> or \<^verbatim>\<open>=\<close>. It is not code of the
  program; \<^verbatim>\<open>decode\<close> is compared with it.
\<close>

definition base64_char :: "nat \<Rightarrow> 16 word" where
  "base64_char n =
     of_nat (if n < 26 then n + 65 else if n < 52 then n + 71 else if n < 62 then n - 4
             else if n = 62 then 43 else 47)"

fun base64encode :: "byte list \<Rightarrow> js_string" where
  "base64encode (a # b # c # rest) =
     (let n = unat a * 65536 + unat b * 256 + unat c
      in base64_char (n div 262144) # base64_char (n div 4096 mod 64)
         # base64_char (n div 64 mod 64) # base64_char (n mod 64) # base64encode rest)"
| "base64encode [a, b] =
     (let n = unat a * 1024 + unat b * 4
      in [base64_char (n div 4096), base64_char (n div 64 mod 64), base64_char (n mod 64), 0x3D])"
| "base64encode [a] =
     (let n = unat a * 16 in [base64_char (n div 64), base64_char (n mod 64), 0x3D, 0x3D])"
| "base64encode [] = []"

text \<open>The sextets and the padding of an encoding, apart: the encoding is the two joined.\<close>

fun sextets_of :: "byte list \<Rightarrow> nat list" where
  "sextets_of (a # b # c # rest) =
     (let n = unat a * 65536 + unat b * 256 + unat c
      in n div 262144 # n div 4096 mod 64 # n div 64 mod 64 # n mod 64 # sextets_of rest)"
| "sextets_of [a, b] =
     (let n = unat a * 1024 + unat b * 4 in [n div 4096, n div 64 mod 64, n mod 64])"
| "sextets_of [a] = (let n = unat a * 16 in [n div 64, n mod 64])"
| "sextets_of [] = []"

fun padding_of :: "byte list \<Rightarrow> js_string" where
  "padding_of (a # b # c # rest) = padding_of rest"
| "padding_of [a, b] = [0x3D]"
| "padding_of [a] = [0x3D, 0x3D]"
| "padding_of [] = []"

section \<open>The audio decoder\<close>

text \<open>
  A \<^verbatim>\<open>Uint8Array\<close> is modelled by its bytes: the array spans its whole buffer, as the
  arrays that \<^verbatim>\<open>decode\<close> builds do, so \<^verbatim>\<open>data.buffer\<close> holds exactly the bytes of \<^verbatim>\<open>data\<close>.
  \<^verbatim>\<open>new Int16Array(buffer)\<close> throws \<^verbatim>\<open>RangeError\<close> on a buffer of odd length; otherwise
  element \<open>k\<close> is made of bytes \<open>2k\<close> (low) and \<open>2k+1\<close> (high), the byte order of the
  little-endian machines browsers run on. \<open>sint\<close> reads an element as a signed number.
\<close>

type_synonym int16 = "16 word"

fun int16_view :: "byte list \<Rightarrow> int16 list" where
  "int16_view (lo # hi # bs) = word_cat hi lo # int16_view bs"
| "int16_view bs = []"

definition Int16Array :: "byte list \<Rightarrow> error + int16 list" where
  "Int16Array buf = (if odd (length buf) then Inl RangeError else Inr (int16_view buf))"

text \<open>
  The numbers of the decoder. A sample is a 16-bit integer divided by \<open>32768\<close>; a double
  holds that quotient exactly, and so does the 32-bit float of a \<^verbatim>\<open>Float32Array\<close>, so
  the model computes with rationals. \<open>NaN\<close> is what \<^verbatim>\<open>undefined / 32768.0\<close> gives.
\<close>

datatype js_number = NaN | Num rat

definition sample_value :: "int16 option \<Rightarrow> js_number" where
  "sample_value v = (case v of None \<Rightarrow> NaN | Some x \<Rightarrow> Num (rat_of_int (sint x) / 32768))"

text \<open>
  The Web Audio interface the decoder calls. \<^verbatim>\<open>createBuffer(numberOfChannels, length,
  sampleRate)\<close> converts \<^verbatim>\<open>length\<close> to an \<^verbatim>\<open>unsigned long\<close> (the fraction is dropped, the
  rest is taken modulo \<open>2^32\<close>) and throws \<^verbatim>\<open>NotSupportedError\<close> when an argument is zero
  or outside the range the implementation supports; the limits are fields of the
  context. The new buffer is silent. \<^verbatim>\<open>getChannelData\<close> throws \<^verbatim>\<open>IndexSizeError\<close> for a
  channel the buffer does not have.
\<close>

record AudioContext =
  maxChannels :: nat
  minSampleRate :: nat
  maxSampleRate :: nat

record AudioBuffer =
  sampleRate :: nat
  frames :: nat
  channels :: "js_number list list"

definition ToUint32 :: "rat \<Rightarrow> nat" where
  "ToUint32 q = nat ((if q < 0 then - \<lfloor>- q\<rfloor> else \<lfloor>q\<rfloor>) mod 2 ^ 32)"

definition createBuffer :: "AudioContext \<Rightarrow> nat \<Rightarrow> nat \<Rightarrow> nat \<Rightarrow> error + AudioBuffer" where
  "createBuffer ctx numberOfChannels len rate =
     (if numberOfChannels = 0 \<or> maxChannels ctx < numberOfChannels \<or> len = 0
         \<or> rate < minSampleRate ctx \<or> maxSampleRate ctx < rate
      then Inl NotSupportedError
      else Inr \<lparr>sampleRate = rate, frames = len,
                channels = replicate numberOfChannels (replicate len (Num 0))\<rparr>)"

definition getChannelData :: "AudioBuffer \<Rightarrow> nat \<Rightarrow> error + js_number list" where
  "getChannelData buffer channel =
     (if channel < length (channels buffer) then Inr (channels buffer ! channel)
      else Inl IndexSizeError)"

text \<open>
  \<^verbatim>\<open>async function decodeAudioData(data, ctx, sampleRate, numChannels)\<close> (lines 64-80).
  \<^verbatim>\<open>frameCount = dataInt16.length / numChannels\<close> is a division of numbers, not of
  integers: with three samples and two channels it is \<open>3/2\<close>, and the inner loop runs
  while \<^verbatim>\<open>i < frameCount\<close>. With \<^verbatim>\<open>numChannels = 0\<close> the quotient is infinite or \<^verbatim>\<open>NaN\<close>;
  \<^verbatim>\<open>createBuffer\<close> then throws for the channel count, whatever the length is (the model's
  quotient is \<open>0\<close> there).
\<close>

function sample_loop ::
  "int16 list \<Rightarrow> nat \<Rightarrow> rat \<Rightarrow> nat \<Rightarrow> nat \<Rightarrow> js_number list \<Rightarrow> js_number list" where
  "sample_loop dataInt16 numChannels frameCount channel i channelData =
     (if rat_of_nat i < frameCount
      then sample_loop dataInt16 numChannels frameCount channel (Suc i)
             (typed_store channelData i
                (sample_value (typed_read dataInt16 (i * numChannels + channel))))
      else channelData)"
  by pat_completeness auto
termination
proof (relation "measure (\<lambda>(d, n, fc, c, i, cd). nat \<lceil>fc\<rceil> - i)")
  show "wf (measure (\<lambda>(d, n, fc, c, i, cd). nat \<lceil>fc\<rceil> - i))"
    by simp
next
  fix dataInt16 :: "int16 list" and numChannels :: nat and frameCount :: rat
    and channel i :: nat and channelData :: "js_number list"
  assume "rat_of_nat i < frameCount"
  then have "int i < \<lceil>frameCount\<rceil>"
    by (simp add: less_ceiling_iff)
  then show "((dataInt16, numChannels, frameCount, channel, Suc i,
                typed_store channelData i
                  (sample_value (typed_read dataInt16 (i * numChannels + channel)))),
              (dataInt16, numChannels, frameCount, channel, i, channelData))
            \<in> measure (\<lambda>(d, n, fc, c, i, cd). nat \<lceil>fc\<rceil> - i)"
    by simp
qed

declare sample_loop.simps [simp del]

function channel_loop ::
  "int16 list \<Rightarrow> nat \<Rightarrow> rat \<Rightarrow> nat \<Rightarrow> AudioBuffer \<Rightarrow> error + AudioBuffer" where
  "channel_loop dataInt16 numChannels frameCount channel buffer =
     (if channel < numChannels
      then (case getChannelData buffer channel of
              Inl e \<Rightarrow> Inl e
            | Inr channelData \<Rightarrow>
                channel_loop dataInt16 numChannels frameCount (Suc channel)
                  (buffer\<lparr>channels := (channels buffer)
                     [channel := sample_loop dataInt16 numChannels frameCount channel 0 channelData]\<rparr>))
      else Inr buffer)"
  by pat_completeness auto
termination
  by (relation "measure (\<lambda>(d, n, fc, c, b). n - c)") auto

declare channel_loop.simps [simp del]

definition decodeAudioData :: "byte list \<Rightarrow> AudioContext \<Rightarrow> nat \<Rightarrow> nat \<Rightarrow> error + AudioBuffer" where
  "decodeAudioData data ctx rate numChannels =
     (case Int16Array data of
        Inl e \<Rightarrow> Inl e
      | Inr dataInt16 \<Rightarrow>
          (let frameCount = rat_of_nat (length dataInt16) / rat_of_nat numChannels in
           case createBuffer ctx numChannels (ToUint32 frameCount) rate of
             Inl e \<Rightarrow> Inl e
           | Inr buffer \<Rightarrow> channel_loop dataInt16 numChannels frameCount 0 buffer))"

section \<open>JSON\<close>

text \<open>
  The values \<^verbatim>\<open>JSON.parse\<close> returns. A number keeps the text of its numeral (its value
  as a double is not used by the code modelled here); an object is the list of its
  members in insertion order, a repeated key keeping its first place and its last value
  (JavaScript lists keys that are array indices first; nothing modelled here reads the
  order).
\<close>

datatype json =
    JNull
  | JBool bool
  | JNumber js_string
  | JString js_string
  | JArray "json list"
  | JObject "(js_string \<times> json) list"

text \<open>
  \<^verbatim>\<open>JSON.parse\<close>, by recursive descent over the grammar of ECMA-404: white space is space,
  tab, line feed and carriage return; a string has no raw control character, and after
  a backslash come a quote, a backslash, a slash, one of \<^verbatim>\<open>b f n r t\<close>, or \<^verbatim>\<open>u\<close> and four
  hexadecimal digits, which give one code unit; a number is
  \<^verbatim>\<open>-? (0 | [1-9][0-9]*) (.[0-9]+)? ([eE][+-]?[0-9]+)?\<close>. Each function returns the value
  read and the rest of the text, or \<open>None\<close> where \<^verbatim>\<open>JSON.parse\<close> throws \<^verbatim>\<open>SyntaxError\<close>.
\<close>

definition json_ws :: "16 word \<Rightarrow> bool" where
  "json_ws c \<longleftrightarrow> c = 0x20 \<or> c = 0x09 \<or> c = 0x0A \<or> c = 0x0D"

definition skip_ws :: "js_string \<Rightarrow> js_string" where
  "skip_ws s = dropWhile json_ws s"

definition is_digit :: "16 word \<Rightarrow> bool" where
  "is_digit c \<longleftrightarrow> 0x30 \<le> c \<and> c \<le> 0x39"

definition hex_value :: "16 word \<Rightarrow> nat option" where
  "hex_value c =
     (let n = unat c in
      if 48 \<le> n \<and> n \<le> 57 then Some (n - 48)
      else if 65 \<le> n \<and> n \<le> 70 then Some (n - 55)
      else if 97 \<le> n \<and> n \<le> 102 then Some (n - 87)
      else None)"

definition escape_char :: "16 word \<Rightarrow> 16 word option" where
  "escape_char e =
     (if e = 0x22 then Some 0x22
      else if e = 0x5C then Some 0x5C
      else if e = 0x2F then Some 0x2F
      else if e = 0x62 then Some 0x08
      else if e = 0x66 then Some 0x0C
      else if e = 0x6E then Some 0x0A
      else if e = 0x72 then Some 0x0D
      else if e = 0x74 then Some 0x09
      else None)"

definition parse_hex4 :: "js_string \<Rightarrow> (16 word \<times> js_string) option" where
  "parse_hex4 s =
     (case s of
        h1 # h2 # h3 # h4 # rest \<Rightarrow>
          (case hex_value h1 of None \<Rightarrow> None | Some a \<Rightarrow>
           case hex_value h2 of None \<Rightarrow> None | Some b \<Rightarrow>
           case hex_value h3 of None \<Rightarrow> None | Some c \<Rightarrow>
           case hex_value h4 of None \<Rightarrow> None | Some d \<Rightarrow>
             Some (of_nat (((a * 16 + b) * 16 + c) * 16 + d), rest))
      | _ \<Rightarrow> None)"

definition parse_escape :: "js_string \<Rightarrow> (16 word \<times> js_string) option" where
  "parse_escape s =
     (case s of
        [] \<Rightarrow> None
      | e # es \<Rightarrow>
          if e = 0x75 then parse_hex4 es
          else (case escape_char e of None \<Rightarrow> None | Some x \<Rightarrow> Some (x, es)))"

lemma parse_hex4_shorter: "parse_hex4 s = Some (x, rest) \<Longrightarrow> length rest < length s"
  by (auto simp: parse_hex4_def split: list.splits option.splits)

lemma parse_escape_shorter: "parse_escape s = Some (x, rest) \<Longrightarrow> length rest < length s"
  by (auto simp: parse_escape_def split: list.splits option.splits if_splits
      dest: parse_hex4_shorter)

function parse_chars :: "js_string \<Rightarrow> js_string \<Rightarrow> (js_string \<times> js_string) option" where
  "parse_chars acc [] = None"
| "parse_chars acc (c # cs) =
     (if c = 0x22 then Some (rev acc, cs)
      else if c = 0x5C then
        (case parse_escape cs of
           None \<Rightarrow> None
         | Some (x, rest) \<Rightarrow> parse_chars (x # acc) rest)
      else if c < 0x20 then None
      else parse_chars (c # acc) cs)"
  by pat_completeness auto
termination
  by (relation "measure (\<lambda>(acc, s). length s)")
    (auto dest: parse_escape_shorter)

definition digits1 :: "js_string \<Rightarrow> (js_string \<times> js_string) option" where
  "digits1 s = (let ds = takeWhile is_digit s in
                if ds = [] then None else Some (ds, dropWhile is_digit s))"

definition parse_int_part :: "js_string \<Rightarrow> (js_string \<times> js_string) option" where
  "parse_int_part s =
     (case s of
        [] \<Rightarrow> None
      | c # cs \<Rightarrow> if c = 0x30 then Some ([c], cs)
                 else if is_digit c then digits1 s
                 else None)"

definition parse_fraction :: "js_string \<Rightarrow> (js_string \<times> js_string) option" where
  "parse_fraction s =
     (case s of
        [] \<Rightarrow> Some ([], s)
      | c # cs \<Rightarrow> if c = 0x2E
                 then (case digits1 cs of None \<Rightarrow> None | Some (ds, rest) \<Rightarrow> Some (c # ds, rest))
                 else Some ([], s))"

definition parse_exponent :: "js_string \<Rightarrow> (js_string \<times> js_string) option" where
  "parse_exponent s =
     (case s of
        [] \<Rightarrow> Some ([], s)
      | c # cs \<Rightarrow>
          if c = 0x65 \<or> c = 0x45
          then (case cs of
                  [] \<Rightarrow> None
                | g # gs \<Rightarrow>
                    if g = 0x2B \<or> g = 0x2D
                    then (case digits1 gs of None \<Rightarrow> None | Some (ds, rest) \<Rightarrow> Some (c # g # ds, rest))
                    else (case digits1 cs of None \<Rightarrow> None | Some (ds, rest) \<Rightarrow> Some (c # ds, rest)))
          else Some ([], s))"

definition parse_number :: "js_string \<Rightarrow> (js_string \<times> js_string) option" where
  "parse_number s =
     (let (sign, s1) = (case s of [] \<Rightarrow> ([], s) | c # cs \<Rightarrow> if c = 0x2D then ([c], cs) else ([], s)) in
      case parse_int_part s1 of
        None \<Rightarrow> None
      | Some (ip, s2) \<Rightarrow>
          (case parse_fraction s2 of
             None \<Rightarrow> None
           | Some (fp, s3) \<Rightarrow>
               (case parse_exponent s3 of
                  None \<Rightarrow> None
                | Some (ep, s4) \<Rightarrow> Some (sign @ ip @ fp @ ep, s4))))"

definition parse_scalar :: "js_string \<Rightarrow> (json \<times> js_string) option" where
  "parse_scalar s =
     (case s of
        [] \<Rightarrow> None
      | c # cs \<Rightarrow>
          if c = 0x22 then map_option (\<lambda>(str, rest). (JString str, rest)) (parse_chars [] cs)
          else if take 4 s = js ''true'' then Some (JBool True, drop 4 s)
          else if take 5 s = js ''false'' then Some (JBool False, drop 5 s)
          else if take 4 s = js ''null'' then Some (JNull, drop 4 s)
          else map_option (\<lambda>(lexeme, rest). (JNumber lexeme, rest)) (parse_number s))"

lemma length_skip_ws: "length (skip_ws s) \<le> length s"
  by (simp add: skip_ws_def length_dropWhile_le)

lemma skip_ws_tail: "skip_ws s = c # cs \<Longrightarrow> length cs < length s"
  using length_skip_ws [of s] by simp

lemma parse_chars_shorter: "parse_chars acc s = Some (str, rest) \<Longrightarrow> length rest < length s"
proof (induction acc s rule: parse_chars.induct)
  case (1 acc)
  then show ?case by simp
next
  case (2 acc c cs)
  show ?case
  proof (cases "c = 0x22")
    case True
    with "2.prems" show ?thesis by simp
  next
    case not_quote: False
    show ?thesis
    proof (cases "c = 0x5C")
      case True
      with not_quote "2.prems" obtain x r where esc: "parse_escape cs = Some (x, r)"
        and more: "parse_chars (x # acc) r = Some (str, rest)"
        by (auto split: option.splits)
      from "2.IH"(1) [OF not_quote True esc refl more] parse_escape_shorter [OF esc]
      show ?thesis by simp
    next
      case False
      with not_quote "2.prems" have ok: "\<not> c < 0x20"
        and more: "parse_chars (c # acc) cs = Some (str, rest)"
        by (auto split: if_splits)
      from "2.IH"(2) [OF not_quote False ok more] show ?thesis by simp
    qed
  qed
qed

text \<open>
  Values, array elements after \<^verbatim>\<open>[\<close> or a comma, and object members after \<^verbatim>\<open>{\<close> or a
  comma. The two tests \<open>length rest < length s\<close> make the recursion well-founded; they
  always hold, since a value takes at least one character (\<open>parse_shorter\<close> below),
  so they reject nothing.
\<close>

function parse_value :: "js_string \<Rightarrow> (json \<times> js_string) option"
  and parse_elements :: "json list \<Rightarrow> js_string \<Rightarrow> (json \<times> js_string) option"
  and parse_members :: "(js_string \<times> json) list \<Rightarrow> js_string \<Rightarrow> (json \<times> js_string) option"
where
  "parse_value s =
     (case skip_ws s of
        [] \<Rightarrow> None
      | c # cs \<Rightarrow>
          if c = 0x7B then
            (case skip_ws cs of
               [] \<Rightarrow> None
             | d # ds \<Rightarrow> if d = 0x7D then Some (JObject [], ds) else parse_members [] cs)
          else if c = 0x5B then
            (case skip_ws cs of
               [] \<Rightarrow> None
             | d # ds \<Rightarrow> if d = 0x5D then Some (JArray [], ds) else parse_elements [] cs)
          else parse_scalar (c # cs))"
| "parse_elements acc s =
     (case parse_value s of
        None \<Rightarrow> None
      | Some (v, rest) \<Rightarrow>
          if length rest < length s then
            (case skip_ws rest of
               [] \<Rightarrow> None
             | c # cs \<Rightarrow>
                 if c = 0x2C then parse_elements (acc @ [v]) cs
                 else if c = 0x5D then Some (JArray (acc @ [v]), cs)
                 else None)
          else None)"
| "parse_members acc s =
     (case skip_ws s of
        [] \<Rightarrow> None
      | c # cs \<Rightarrow>
          if c = 0x22 then
            (case parse_chars [] cs of
               None \<Rightarrow> None
             | Some (key, rest) \<Rightarrow>
                 (case skip_ws rest of
                    [] \<Rightarrow> None
                  | d # ds \<Rightarrow>
                      if d = 0x3A then
                        (case parse_value ds of
                           None \<Rightarrow> None
                         | Some (v, rest') \<Rightarrow>
                             if length rest' < length ds then
                               (case skip_ws rest' of
                                  [] \<Rightarrow> None
                                | e # es \<Rightarrow>
                                    if e = 0x2C then parse_members (AList.update key v acc) es
                                    else if e = 0x7D then Some (JObject (AList.update key v acc), es)
                                    else None)
                             else None)
                      else None))
          else None)"
  by pat_completeness auto
termination
  by (relation "measure (\<lambda>x. case x of
            Inl s \<Rightarrow> 2 * length s
          | Inr (Inl (acc, s)) \<Rightarrow> 2 * length s + 1
          | Inr (Inr (acc, s)) \<Rightarrow> 2 * length s + 1)")
    (auto dest!: skip_ws_tail parse_chars_shorter)

declare parse_value.simps [simp del] parse_elements.simps [simp del] parse_members.simps [simp del]

definition JSON_parse :: "js_string \<Rightarrow> error + json" where
  "JSON_parse text =
     (case parse_value text of
        None \<Rightarrow> Inl SyntaxError
      | Some (v, rest) \<Rightarrow> if skip_ws rest = [] then Inr v else Inl SyntaxError)"

text \<open>
  Reading a property that no prototype defines (\<^verbatim>\<open>definition\<close>, \<^verbatim>\<open>native\<close>, \<^verbatim>\<open>target\<close>):
  a \<^verbatim>\<open>TypeError\<close> on \<^verbatim>\<open>null\<close>, the member of an object, \<^verbatim>\<open>undefined\<close> (\<open>None\<close>) otherwise.
\<close>

definition read_property :: "json \<Rightarrow> js_string \<Rightarrow> error + json option" where
  "read_property v key =
     (case v of
        JNull \<Rightarrow> Inl TypeError
      | JObject members \<Rightarrow> Inr (map_of members key)
      | _ \<Rightarrow> Inr None)"

section \<open>Hydration at start\<close>

text \<open>
  The first effect of \<^verbatim>\<open>App\<close> (lines 105-115). \<^verbatim>\<open>localStorage.getItem\<close> gives a string or
  \<^verbatim>\<open>null\<close>; \<^verbatim>\<open>if (saved)\<close> passes for a non-empty string. The state holds whatever
  \<^verbatim>\<open>JSON.parse\<close> returned: nothing checks that it is an array of entries. The effect has no
  \<^verbatim>\<open>try\<close>: an exception of \<^verbatim>\<open>JSON.parse\<close>, or of destructuring \<^verbatim>\<open>null\<close>, leaves it.
  The state starts as \<^verbatim>\<open>useState\<close> sets it: an empty notebook, empty language codes,
  not set up.
\<close>

type_synonym storage = "js_string \<Rightarrow> js_string option"

record startup_state =
  notebook_value :: json
  nativeLang_value :: "json option"
  targetLang_value :: "json option"
  isSetup :: bool

definition initial_state :: startup_state where
  "initial_state =
     \<lparr>notebook_value = JArray [], nativeLang_value = Some (JString []),
      targetLang_value = Some (JString []), isSetup = False\<rparr>"

definition hydrate_notebook :: "storage \<Rightarrow> startup_state \<Rightarrow> error + startup_state" where
  "hydrate_notebook localStorage s =
     (case localStorage (js ''ai_dict_notebook'') of
        None \<Rightarrow> Inr s
      | Some saved \<Rightarrow>
          if saved = [] then Inr s
          else (case JSON_parse saved of
                  Inl e \<Rightarrow> Inl e
                | Inr v \<Rightarrow> Inr (s\<lparr>notebook_value := v\<rparr>)))"

definition hydrate_setup :: "storage \<Rightarrow> startup_state \<Rightarrow> error + startup_state" where
  "hydrate_setup localStorage s =
     (case localStorage (js ''ai_dict_setup'') of
        None \<Rightarrow> Inr s
      | Some setup \<Rightarrow>
          if setup = [] then Inr s
          else (case JSON_parse setup of
                  Inl e \<Rightarrow> Inl e
                | Inr v \<Rightarrow>
                    (case read_property v (js ''native'') of
                       Inl e \<Rightarrow> Inl e
                     | Inr nativeValue \<Rightarrow>
                         (case read_property v (js ''target'') of
                            Inl e \<Rightarrow> Inl e
                          | Inr targetValue \<Rightarrow>
                              Inr (s\<lparr>nativeLang_value := nativeValue, targetLang_value := targetValue,
                                     isSetup := True\<rparr>)))))"

definition hydrate :: "storage \<Rightarrow> error + startup_state" where
  "hydrate localStorage =
     (case hydrate_notebook localStorage initial_state of
        Inl e \<Rightarrow> Inl e
      | Inr s \<Rightarrow> hydrate_setup localStorage s)"

section \<open>The lookup\<close>

text \<open>
  \<^verbatim>\<open>Date.now().toString()\<close> and the keys of array elements: a natural number in decimal.
\<close>

function decimal :: "nat \<Rightarrow> js_string" where
  "decimal n = (if n < 10 then [of_nat (48 + n)] else decimal (n div 10) @ [of_nat (48 + n mod 10)])"
  by pat_completeness auto
termination
  by (relation "measure id") auto

declare decimal.simps [simp del]

text \<open>
  \<^verbatim>\<open>{...parsed}\<close>: the members of an object; the elements of an array and the characters of
  a string under their indices; nothing for a number, a boolean or \<^verbatim>\<open>null\<close>.
\<close>

definition spread :: "json \<Rightarrow> (js_string \<times> json) list" where
  "spread v =
     (case v of
        JObject members \<Rightarrow> members
      | JArray xs \<Rightarrow> zip (map decimal [0..<length xs]) xs
      | JString s \<Rightarrow> zip (map decimal [0..<length s]) (map (\<lambda>c. JString [c]) s)
      | _ \<Rightarrow> [])"

text \<open>
  What the code reads of a response of \<^verbatim>\<open>ai.models.generateContent\<close>: \<^verbatim>\<open>candidates\<close>, a
  candidate's \<^verbatim>\<open>content\<close>, its \<^verbatim>\<open>parts\<close>, a part's \<^verbatim>\<open>inlineData\<close> and its \<^verbatim>\<open>data\<close>, each
  of which may be missing, and the \<^verbatim>\<open>text\<close> accessor. A request is modelled by the values
  the code puts into its prompt: the query with the two language labels, or the query
  with \<^verbatim>\<open>parsed.definition\<close>. A rejected call is an \<open>Inl\<close>. \<open>Date_now\<close> is the clock.
\<close>

datatype Blob = Blob (blob_data: "js_string option")
datatype Part = Part (inlineData: "Blob option")
datatype Content = Content (parts: "Part list option")
datatype Candidate = Candidate (content: "Content option")
datatype GenerateContentResponse =
  Response (candidates: "Candidate list option") (response_text: "js_string option")

datatype request =
    TextRequest js_string "js_string option" "js_string option"
  | ImageRequest js_string "json option"


record environment =
  generateContent :: "request \<Rightarrow> error + GenerateContentResponse"
  Date_now :: nat

text \<open>The codes and names of \<^verbatim>\<open>LANGUAGES\<close> (lines 23-34); the flags are not read here.\<close>

definition LANGUAGES :: "(js_string \<times> js_string) list" where
  "LANGUAGES =
     [(js ''en'', js ''English''), (js ''zh'', js ''Chinese''), (js ''es'', js ''Spanish''),
      (js ''fr'', js ''French''), (js ''ja'', js ''Japanese''), (js ''ko'', js ''Korean''),
      (js ''de'', js ''German''), (js ''pt'', js ''Portuguese''), (js ''it'', js ''Italian''),
      (js ''ru'', js ''Russian'')]"

definition language_name :: "js_string \<Rightarrow> js_string option" where
  "language_name code = map_of LANGUAGES code"

text \<open>
  The state \<^verbatim>\<open>performLookup\<close> reads and writes: \<open>native_code\<close> and \<open>target_code\<close> are the
  states \<^verbatim>\<open>nativeLang\<close> and \<^verbatim>\<open>targetLang\<close>, and \<open>result_entry\<close> is the state \<^verbatim>\<open>result\<close>. It
  is declared \<^verbatim>\<open>WordEntry | null\<close>, but \<^verbatim>\<open>parsed\<close> has type \<^verbatim>\<open>any\<close>: the object stored is
  the one built at run time, whatever its members are.
\<close>

datatype role = User | Model

record ChatMessage =
  role :: role
  message :: js_string

record search_state =
  native_code :: js_string
  target_code :: js_string
  loading :: bool
  result_entry :: "json option"
  chatHistory :: "ChatMessage list"

text \<open>
  \<^verbatim>\<open>textResponse.text || '{}'\<close>, \<^verbatim>\<open>imageResponse.candidates[0].content.parts\<close> and the loop
  over the parts, in which every part with inline data overwrites \<^verbatim>\<open>imgUrl\<close>.
\<close>

definition text_or_default :: "js_string option \<Rightarrow> js_string" where
  "text_or_default t = (case t of None \<Rightarrow> js ''{}'' | Some s \<Rightarrow> if s = [] then js ''{}'' else s)"

definition first_candidate_parts :: "GenerateContentResponse \<Rightarrow> error + Part list" where
  "first_candidate_parts r =
     (case candidates r of
        None \<Rightarrow> Inl TypeError
      | Some [] \<Rightarrow> Inl TypeError
      | Some (c # cs) \<Rightarrow>
          (case content c of
             None \<Rightarrow> Inl TypeError
           | Some ct \<Rightarrow> (case parts ct of None \<Rightarrow> Inl TypeError | Some ps \<Rightarrow> Inr ps)))"

fun image_url_loop :: "Part list \<Rightarrow> js_string \<Rightarrow> js_string" where
  "image_url_loop [] imgUrl = imgUrl"
| "image_url_loop (part # rest) imgUrl =
     image_url_loop rest
       (case inlineData part of
          None \<Rightarrow> imgUrl
        | Some blob \<Rightarrow>
            js ''data:image/png;base64,''
              @ (case blob_data blob of None \<Rightarrow> js ''undefined'' | Some d \<Rightarrow> d))"

text \<open>
  \<^verbatim>\<open>{...parsed, id: Date.now().toString(), imageUrl: imgUrl, targetLang, nativeLang}\<close>: the
  object is whatever the response held, with four fields set over it.
\<close>

definition new_entry :: "json \<Rightarrow> nat \<Rightarrow> js_string \<Rightarrow> js_string \<Rightarrow> js_string \<Rightarrow> json" where
  "new_entry parsed now imgUrl targetLang nativeLang =
     JObject
       (AList.update (js ''nativeLang'') (JString nativeLang)
         (AList.update (js ''targetLang'') (JString targetLang)
           (AList.update (js ''imageUrl'') (JString imgUrl)
             (AList.update (js ''id'') (JString (decimal now)) (spread parsed)))))"

text \<open>
  The \<^verbatim>\<open>try\<close> block of \<^verbatim>\<open>performLookup\<close> (lines 165-224), with the requests it has sent. The
  image prompt reads \<^verbatim>\<open>parsed.definition\<close> before the image call is made.
\<close>

definition lookup_try ::
  "environment \<Rightarrow> js_string \<Rightarrow> js_string \<Rightarrow> js_string \<Rightarrow> request list \<times> (error + json)" where
  "lookup_try env nativeLang targetLang lookupText =
     (let nativeLabel = language_name nativeLang;
          targetLabel = language_name targetLang;
          textRequest = TextRequest lookupText targetLabel nativeLabel
      in case generateContent env textRequest of
           Inl e \<Rightarrow> ([textRequest], Inl e)
         | Inr textResponse \<Rightarrow>
             (case JSON_parse (text_or_default (response_text textResponse)) of
                Inl e \<Rightarrow> ([textRequest], Inl e)
              | Inr parsed \<Rightarrow>
                  (case read_property parsed (js ''definition'') of
                     Inl e \<Rightarrow> ([textRequest], Inl e)
                   | Inr d \<Rightarrow>
                       (let imageRequest = ImageRequest lookupText d
                        in case generateContent env imageRequest of
                             Inl e \<Rightarrow> ([textRequest, imageRequest], Inl e)
                           | Inr imageResponse \<Rightarrow>
                               (case first_candidate_parts imageResponse of
                                  Inl e \<Rightarrow> ([textRequest, imageRequest], Inl e)
                                | Inr ps \<Rightarrow>
                                    ([textRequest, imageRequest],
                                     Inr (new_entry parsed (Date_now env) (image_url_loop ps [])
                                            targetLang nativeLang)))))))"

text \<open>
  \<^verbatim>\<open>performLookup\<close> (lines 161-230): the state is cleared, the \<^verbatim>\<open>try\<close> block runs, \<^verbatim>\<open>catch\<close>
  logs the exception, and \<^verbatim>\<open>finally\<close> ends the loading state.
\<close>

record lookup_run =
  final :: search_state
  requests :: "request list"
  console :: "error list"

definition performLookup :: "environment \<Rightarrow> search_state \<Rightarrow> js_string \<Rightarrow> lookup_run" where
  "performLookup env st lookupText =
     (let cleared = st\<lparr>loading := True, result_entry := None, chatHistory := []\<rparr>
      in case lookup_try env (native_code st) (target_code st) lookupText of
           (sent, Inl e) \<Rightarrow>
             \<lparr>final = cleared\<lparr>loading := False\<rparr>, requests = sent, console = [e]\<rparr>
         | (sent, Inr newEntry) \<Rightarrow>
             \<lparr>final = cleared\<lparr>result_entry := Some newEntry, loading := False\<rparr>,
              requests = sent, console = []\<rparr>)"

section \<open>The notebook and the flashcard navigator\<close>

text \<open>
  \<^verbatim>\<open>interface WordEntry\<close> of the source. The fields \<^verbatim>\<open>id\<close> and \<^verbatim>\<open>definition\<close> are
  written \<open>entry_id\<close> and \<open>definition_text\<close>; \<^verbatim>\<open>imageUrl?\<close> is optional. The notebook
  and the study view are modelled on entries of this declared type, compared by \<^verbatim>\<open>===\<close>
  on strings.
\<close>

record Example =
  target :: js_string
  native :: js_string

record WordEntry =
  entry_id :: js_string
  word :: js_string
  definition_text :: js_string
  examples :: "Example list"
  usage :: js_string
  imageUrl :: "js_string option"
  targetLang :: js_string
  nativeLang :: js_string

datatype tab = Search | Notebook | Study

text \<open>The part of the \<^verbatim>\<open>App\<close> component's state that the notebook and study views use.\<close>

record app =
  notebook :: "WordEntry list"
  result :: "WordEntry option"
  activeTab :: tab
  currentCardIndex :: int
  isFlipped :: bool

text \<open>
  The save button of the result card (lines 402-408):
  \<^verbatim>\<open>if (notebook.some(n => n.word === result.word))
    setNotebook(notebook.filter(n => n.word !== result.word));
  else setNotebook([...notebook, result]);\<close>
\<close>

definition toggle :: "WordEntry list \<Rightarrow> WordEntry \<Rightarrow> WordEntry list" where
  "toggle nb r =
     (if list_ex (\<lambda>n. word n = word r) nb
      then filter (\<lambda>n. word n \<noteq> word r) nb
      else nb @ [r])"

text \<open>The remove button of a notebook row (line 511).\<close>

definition remove :: "WordEntry list \<Rightarrow> WordEntry \<Rightarrow> WordEntry list" where
  "remove nb item = filter (\<lambda>n. entry_id n \<noteq> entry_id item) nb"

text \<open>
  The handlers of the study view (lines 538, 574, 581) and the \<^verbatim>\<open>disabled\<close> attributes of
  the two navigation buttons (lines 573, 580).
\<close>

definition flip_onClick :: "app \<Rightarrow> app" where
  "flip_onClick s = s\<lparr>isFlipped := \<not> isFlipped s\<rparr>"

definition previous_onClick :: "app \<Rightarrow> app" where
  "previous_onClick s = s\<lparr>currentCardIndex := currentCardIndex s - 1, isFlipped := False\<rparr>"

definition next_onClick :: "app \<Rightarrow> app" where
  "next_onClick s = s\<lparr>currentCardIndex := currentCardIndex s + 1, isFlipped := False\<rparr>"

definition previous_disabled :: "app \<Rightarrow> bool" where
  "previous_disabled s \<longleftrightarrow> currentCardIndex s = 0"

definition next_disabled :: "app \<Rightarrow> bool" where
  "next_disabled s \<longleftrightarrow> currentCardIndex s = int (length (notebook s)) - 1"

text \<open>
  The study view shows a card, and with it the flip area and the two buttons, only on the
  study tab with a non-empty notebook (lines 523-530).
\<close>

definition study_shown :: "app \<Rightarrow> bool" where
  "study_shown s \<longleftrightarrow> activeTab s = Study \<and> notebook s \<noteq> []"

text \<open>
  A click reaches its handler only when the control is rendered and not disabled; any
  other click leaves the state as it is.
\<close>

datatype event =
    NavClick tab
  | ToggleClick
  | OpenClick WordEntry
  | RemoveClick WordEntry
  | FlipClick
  | PreviousClick
  | NextClick

fun step :: "app \<Rightarrow> event \<Rightarrow> app" where
  "step s (NavClick t) = s\<lparr>activeTab := t\<rparr>"
| "step s ToggleClick =
     (case result s of
        None \<Rightarrow> s
      | Some r \<Rightarrow> if activeTab s = Search then s\<lparr>notebook := toggle (notebook s) r\<rparr> else s)"
| "step s (OpenClick item) =
     (if activeTab s = Notebook \<and> item \<in> set (notebook s)
      then s\<lparr>result := Some item, activeTab := Search\<rparr> else s)"
| "step s (RemoveClick item) =
     (if activeTab s = Notebook \<and> item \<in> set (notebook s)
      then s\<lparr>notebook := remove (notebook s) item\<rparr> else s)"
| "step s FlipClick = (if study_shown s then flip_onClick s else s)"
| "step s PreviousClick =
     (if study_shown s \<and> \<not> previous_disabled s then previous_onClick s else s)"
| "step s NextClick =
     (if study_shown s \<and> \<not> next_disabled s then next_onClick s else s)"

text \<open>
  Rendering the study view reads \<^verbatim>\<open>notebook[currentCardIndex].imageUrl\<close>, \<^verbatim>\<open>.word\<close>, ... and
  \<^verbatim>\<open>.examples[0].target\<close> (lines 543-558): a \<^verbatim>\<open>TypeError\<close> when the index is outside
  the notebook, or when the card has no example. The other views read nothing that can
  be missing in a typed state.
\<close>

definition study_card :: "app \<Rightarrow> error + WordEntry" where
  "study_card s =
     (let i = currentCardIndex s in
      if 0 \<le> i \<and> i < int (length (notebook s))
      then (let card = notebook s ! nat i in
            if examples card = [] then Inl TypeError else Inr card)
      else Inl TypeError)"

definition render :: "app \<Rightarrow> error + unit" where
  "render s =
     (if study_shown s
      then (case study_card s of Inl e \<Rightarrow> Inl e | Inr _ \<Rightarrow> Inr ())
      else Inr ())"

text \<open>A run of clicks; it ends at the first render that throws.\<close>

fun run :: "app \<Rightarrow> event list \<Rightarrow> error + app" where
  "run s [] = Inr s"
| "run s (e # es) =
     (case render (step s e) of Inl err \<Rightarrow> Inl err | Inr _ \<Rightarrow> run (step s e) es)"

subsection \<open>Example data\<close>

text \<open>Two saved entries, used where a property is evaluated on a concrete notebook.\<close>

definition hello_entry :: WordEntry where
  "hello_entry =
     \<lparr>entry_id = js ''1700000000000'', word = js ''hello'', definition_text = js ''a greeting'',
      examples = [\<lparr>target = js ''Hello!'', native = js ''Hola!''\<rparr>],
      usage = js ''casual greeting'', imageUrl = Some (js ''''),
      targetLang = js ''en'', nativeLang = js ''es''\<rparr>"

definition bye_entry :: WordEntry where
  "bye_entry =
     \<lparr>entry_id = js ''1700000000001'', word = js ''bye'', definition_text = js ''a farewell'',
      examples = [\<lparr>target = js ''Bye!'', native = js ''Adios!''\<rparr>],
      usage = js ''casual farewell'', imageUrl = Some (js ''''),
      targetLang = js ''en'', nativeLang = js ''es''\<rparr>"

definition study_two :: app where
  "study_two =
     \<lparr>notebook = [hello_entry, bye_entry], result = None, activeTab = Study,
      currentCardIndex = 0, isFlipped = False\<rparr>"

definition study_last :: app where
  "study_last = study_two\<lparr>currentCardIndex := 1, isFlipped := True\<rparr>"

text \<open>
  A context with the limits every implementation must at least support (32 channels,
  8000 to 96000 Hz), and four payloads: four samples (\<open>-32768\<close>, \<open>32767\<close>, \<open>0\<close>, \<open>1\<close>),
  three samples, three bytes, and two samples followed by a stray byte.
\<close>

definition browser_ctx :: AudioContext where
  "browser_ctx = \<lparr>maxChannels = 32, minSampleRate = 8000, maxSampleRate = 96000\<rparr>"

definition pcm_four :: "byte list" where
  "pcm_four = [0x00, 0x80, 0xFF, 0x7F, 0x00, 0x00, 0x01, 0x00]"

definition pcm_three :: "byte list" where
  "pcm_three = [0x00, 0x80, 0xFF, 0x7F, 0x00, 0x00]"

definition odd_payload :: "byte list" where
  "odd_payload = [0x00, 0x80, 0xFF]"

definition stray_byte_payload :: "byte list" where
  "stray_byte_payload = [0x00, 0x80, 0xFF, 0x7F, 0x00]"

text \<open>
  An idle search state, a well-formed reply of the text service with what it parses to
  and the entry it leads to, an image reply whose only part is text, and the environment
  that answers every text request and every image request with given replies.
\<close>

definition idle :: search_state where
  "idle = \<lparr>native_code = js ''es'', target_code = js ''en'', loading = False,
            result_entry = None, chatHistory = []\<rparr>"

definition hello_text :: js_string where
  "hello_text = js ''{\"word\":\"Hello\",\"definition\":\"a greeting\",\"examples\":[{\"target\":\"Hello!\",\"native\":\"Hola!\"}],\"usage\":\"casual greeting\"}''"

definition hello_parsed :: json where
  "hello_parsed =
     JObject [(js ''word'', JString (js ''Hello'')), (js ''definition'', JString (js ''a greeting'')),
       (js ''examples'', JArray [JObject [(js ''target'', JString (js ''Hello!'')),
                                          (js ''native'', JString (js ''Hola!''))]]),
       (js ''usage'', JString (js ''casual greeting''))]"

definition hello_members :: "(js_string \<times> json) list" where
  "hello_members =
     [(js ''word'', JString (js ''Hello'')), (js ''definition'', JString (js ''a greeting'')),
      (js ''examples'', JArray [JObject [(js ''target'', JString (js ''Hello!'')),
                                         (js ''native'', JString (js ''Hola!''))]]),
      (js ''usage'', JString (js ''casual greeting'')),
      (js ''id'', JString (js ''1700000000000'')), (js ''imageUrl'', JString []),
      (js ''targetLang'', JString (js ''en'')), (js ''nativeLang'', JString (js ''es''))]"

definition no_image_response :: GenerateContentResponse where
  "no_image_response = Response (Some [Candidate (Some (Content (Some [Part None])))]) None"

definition env_of :: "js_string \<Rightarrow> error + GenerateContentResponse \<Rightarrow> environment" where
  "env_of textReply imageReply =
     \<lparr>generateContent =
        (\<lambda>req. case req of
           TextRequest q t n \<Rightarrow> Inr (Response None (Some textReply))
         | ImageRequest q d \<Rightarrow> imageReply),
      Date_now = 1700000000000\<rparr>"

section \<open>Properties of the notebook\<close>

lemma toggle_present:
  "list_ex (\<lambda>n. word n = word r) nb \<Longrightarrow> toggle nb r = filter (\<lambda>n. word n \<noteq> word r) nb"
  by (simp add: toggle_def)

lemma toggle_absent:
  "\<not> list_ex (\<lambda>n. word n = word r) nb \<Longrightarrow> toggle nb r = nb @ [r]"
  by (simp add: toggle_def)

lemma filter_absent:
  "\<not> list_ex (\<lambda>n. word n = w) nb \<Longrightarrow> filter (\<lambda>n. word n \<noteq> w) nb = nb"
  by (induction nb) auto

lemma hello_bye_words: "word hello_entry \<noteq> word bye_entry" "entry_id hello_entry \<noteq> entry_id bye_entry"
  by (simp_all add: hello_entry_def bye_entry_def js_def)

lemma hello_bye_distinct: "hello_entry \<noteq> bye_entry"
  using hello_bye_words(1) by auto

text \<open>
  Claim C3, as the code has it. Toggling an entry whose word is in the notebook removes
  every entry with that word and adds nothing; toggling an entry whose word is not in the
  notebook appends it as the last element and leaves the others and their order as they
  were. Two toggles in a row give back the first notebook when the word was absent; when
  it was present they give the notebook without that word, followed by the entry.
\<close>

theorem toggle_remove_or_append:
  "(list_ex (\<lambda>n. word n = word e) nb \<longrightarrow>
      toggle nb e = filter (\<lambda>n. word n \<noteq> word e) nb
      \<and> \<not> list_ex (\<lambda>n. word n = word e) (toggle nb e)
      \<and> set (toggle nb e) \<subseteq> set nb
      \<and> toggle (toggle nb e) e = filter (\<lambda>n. word n \<noteq> word e) nb @ [e])
   \<and> (\<not> list_ex (\<lambda>n. word n = word e) nb \<longrightarrow>
      toggle nb e = nb @ [e]
      \<and> toggle (toggle nb e) e = nb)"
proof (intro conjI impI)
  assume present: "list_ex (\<lambda>n. word n = word e) nb"
  show removed: "toggle nb e = filter (\<lambda>n. word n \<noteq> word e) nb"
    using present by (rule toggle_present)
  show gone: "\<not> list_ex (\<lambda>n. word n = word e) (toggle nb e)"
    by (simp add: removed list_ex_iff)
  show "set (toggle nb e) \<subseteq> set nb"
    by (simp add: removed)
  show "toggle (toggle nb e) e = filter (\<lambda>n. word n \<noteq> word e) nb @ [e]"
    using toggle_absent [OF gone] by (simp add: removed)
next
  assume absent: "\<not> list_ex (\<lambda>n. word n = word e) nb"
  show appended: "toggle nb e = nb @ [e]"
    using absent by (rule toggle_absent)
  have "list_ex (\<lambda>n. word n = word e) (nb @ [e])"
    by (simp add: list_ex_iff)
  then have "toggle (nb @ [e]) e = filter (\<lambda>n. word n \<noteq> word e) (nb @ [e])"
    by (rule toggle_present)
  also have "\<dots> = nb"
    using filter_absent [OF absent] by simp
  finally show "toggle (toggle nb e) e = nb"
    by (simp add: appended)
qed

theorem toggle_remove_or_append_witness:
  "list_ex (\<lambda>n. word n = word hello_entry) [hello_entry, bye_entry]
   \<and> toggle [hello_entry, bye_entry] hello_entry = [bye_entry]
   \<and> toggle (toggle [hello_entry, bye_entry] hello_entry) hello_entry = [bye_entry, hello_entry]
   \<and> \<not> list_ex (\<lambda>n. word n = word hello_entry) [bye_entry]
   \<and> toggle [bye_entry] hello_entry = [bye_entry, hello_entry]
   \<and> toggle (toggle [bye_entry] hello_entry) hello_entry = [bye_entry]"
  using toggle_remove_or_append [of hello_entry "[hello_entry, bye_entry]"]
    toggle_remove_or_append [of hello_entry "[bye_entry]"] hello_bye_words
  by (simp add: toggle_def eq_commute [of "word bye_entry"])

theorem toggle_twice_counterexample:
  "toggle (toggle [hello_entry, bye_entry] hello_entry) hello_entry \<noteq> [hello_entry, bye_entry]"
  using hello_bye_words hello_bye_distinct
  by (simp add: toggle_def eq_commute [of "word bye_entry"])

section \<open>Properties of the flashcard navigator\<close>

lemma study_step_in_range:
  assumes "0 \<le> currentCardIndex s" and "currentCardIndex s < int (length (notebook s))"
    and "ev \<in> {FlipClick, PreviousClick, NextClick}"
  shows "0 \<le> currentCardIndex (step s ev)
    \<and> currentCardIndex (step s ev) < int (length (notebook (step s ev)))
    \<and> notebook (step s ev) = notebook s"
  using assms
  by (auto simp: flip_onClick_def previous_onClick_def next_onClick_def
      previous_disabled_def next_disabled_def)

text \<open>
  Claim C9, as the code has it. The flip handler negates \<open>isFlipped\<close> and leaves the index
  alone. The handlers of Previous and Next always set \<open>isFlipped\<close> to false, and so does a
  click on either button while it is enabled. At its bound a button is disabled
  (Previous at index 0, Next at the last index): the click does nothing, and a flipped
  card stays flipped.
\<close>

theorem flip_keeps_index_navigation_unflips:
  "currentCardIndex (flip_onClick s) = currentCardIndex s
   \<and> isFlipped (flip_onClick s) = (\<not> isFlipped s)
   \<and> currentCardIndex (step s FlipClick) = currentCardIndex s
   \<and> \<not> isFlipped (next_onClick s)
   \<and> \<not> isFlipped (previous_onClick s)
   \<and> (study_shown s \<and> \<not> next_disabled s \<longrightarrow> \<not> isFlipped (step s NextClick))
   \<and> (study_shown s \<and> \<not> previous_disabled s \<longrightarrow> \<not> isFlipped (step s PreviousClick))
   \<and> (next_disabled s \<longrightarrow> step s NextClick = s)
   \<and> (previous_disabled s \<longrightarrow> step s PreviousClick = s)"
  by (simp add: flip_onClick_def next_onClick_def previous_onClick_def)

theorem flip_keeps_index_navigation_unflips_witness:
  "study_shown study_two \<and> \<not> next_disabled study_two
   \<and> \<not> isFlipped (step study_two NextClick)
   \<and> previous_disabled study_two \<and> step study_two PreviousClick = study_two
   \<and> study_shown study_last \<and> \<not> previous_disabled study_last
   \<and> \<not> isFlipped (step study_last PreviousClick)
   \<and> next_disabled study_last \<and> step study_last NextClick = study_last"
  using flip_keeps_index_navigation_unflips [of study_two]
    flip_keeps_index_navigation_unflips [of study_last]
  by (simp add: study_shown_def next_disabled_def previous_disabled_def
      study_two_def study_last_def)

theorem next_at_last_card_counterexample:
  "isFlipped (step study_last NextClick)"
  by (simp add: study_shown_def next_disabled_def study_two_def study_last_def)

text \<open>
  Claim C4 at a failing input. With two saved cards the user goes to the second card,
  opens the notebook tab and removes that card: the notebook has one entry and the index
  is still 1. Nothing resets the index, and the next render of the study view reads
  \<^verbatim>\<open>notebook[1].imageUrl\<close> of a one-element array.
\<close>

theorem remove_leaves_index_out_of_range:
  "run study_two [NextClick, NavClick Notebook, RemoveClick bye_entry] =
     Inr \<lparr>notebook = [hello_entry], result = None, activeTab = Notebook,
          currentCardIndex = 1, isFlipped = False\<rparr>
   \<and> run study_two [NextClick, NavClick Notebook, RemoveClick bye_entry, NavClick Study] =
     Inl TypeError"
  using hello_bye_words
  by (simp add: study_two_def study_shown_def next_disabled_def next_onClick_def
      render_def study_card_def remove_def hello_entry_def bye_entry_def js_def)

section \<open>Properties of the base64 decoder\<close>

lemma replicate_numeral: "replicate (numeral k) x = x # replicate (pred_numeral k) x"
  by (simp add: numeral_eq_Suc)

lemma base64encode_split:
  "base64encode bs = map base64_char (sextets_of bs) @ padding_of bs"
  by (induction bs rule: base64encode.induct) (simp_all add: Let_def)

lemma unat_byte_less: "unat (a :: byte) < 256"
  using unsigned_less [of a, where ?'a = nat] by simp

lemma sextets_of_bound: "s \<in> set (sextets_of bs) \<Longrightarrow> s < 64"
proof (induction bs arbitrary: s rule: sextets_of.induct)
  case (1 a b c rest)
  have "unat a * 65536 + unat b * 256 + unat c < 262144 * 64"
    using unat_byte_less [of a] unat_byte_less [of b] unat_byte_less [of c] by simp
  then have "(unat a * 65536 + unat b * 256 + unat c) div 262144 < 64"
    by (simp add: less_mult_imp_div_less)
  with "1" show ?case
    by (auto simp: Let_def)
next
  case (2 a b)
  have "unat a * 1024 + unat b * 4 < 4096 * 64"
    using unat_byte_less [of a] unat_byte_less [of b] by simp
  then have "(unat a * 1024 + unat b * 4) div 4096 < 64"
    by (simp add: less_mult_imp_div_less)
  with "2" show ?case
    by (auto simp: Let_def)
next
  case (3 a)
  have "unat a * 16 < 64 * 64"
    using unat_byte_less [of a] by simp
  then have "unat a * 16 div 64 < 64"
    by (simp add: less_mult_imp_div_less)
  with "3" show ?case
    by (auto simp: Let_def)
next
  case 4
  then show ?case by simp
qed

lemma digit_div: "c < k \<Longrightarrow> (x * k + c) div k = (x::nat)"
  by simp

lemma digit_mod: "c < k \<Longrightarrow> (x * k + c) mod k = (c::nat)"
  by simp

lemma sextets_recombine:
  "((n div 262144 * 64 + n div 4096 mod 64) * 64 + n div 64 mod 64) * 64 + n mod 64 = (n::nat)"
proof -
  have a: "n div 4096 = n div 64 div 64" and b: "n div 262144 = n div 64 div 64 div 64"
    by (simp_all add: div_mult2_eq)
  show ?thesis
    unfolding a b by (simp add: div_mult_mod_eq)
qed

lemma recombine3:
  "(n div 4096 * 64 + n div 64 mod 64) * 64 + n mod 64 = (n::nat)"
proof -
  have a: "n div 4096 = n div 64 div 64"
    by (simp add: div_mult2_eq)
  show ?thesis
    unfolding a by (simp add: div_mult_mod_eq)
qed

lemma decode_group4:
  "decode_sextets (n div 262144 # n div 4096 mod 64 # n div 64 mod 64 # n mod 64 # rest) =
     n div 65536 # n div 256 mod 256 # n mod 256 # decode_sextets rest"
  by (simp only: decode_sextets.simps Let_def sextets_recombine)

lemma decode_group3:
  "decode_sextets [n div 4096, n div 64 mod 64, n mod 64] = [n div 4 div 256, n div 4 mod 256]"
  by (simp only: decode_sextets.simps Let_def recombine3)

lemma decode_group2:
  "decode_sextets [n div 64, n mod 64] = [n div 16]"
  by (simp only: decode_sextets.simps div_mult_mod_eq)

lemma decode_sextets_of: "decode_sextets (sextets_of bs) = map unat bs"
proof (induction bs rule: sextets_of.induct)
  case (1 a b c rest)
  let ?n = "unat a * 65536 + unat b * 256 + unat c"
  have lo: "unat b * 256 + unat c < 65536"
    using unat_byte_less [of b] unat_byte_less [of c] by simp
  have n1: "?n = unat a * 65536 + (unat b * 256 + unat c)"
    and n2: "?n = (unat a * 256 + unat b) * 256 + unat c"
    by simp_all
  have "?n div 65536 = unat a"
    by (subst n1) (rule digit_div [OF lo])
  moreover have "?n div 256 = unat a * 256 + unat b"
    by (subst n2) (rule digit_div [OF unat_byte_less])
  moreover have "?n mod 256 = unat c"
    by (subst n2) (rule digit_mod [OF unat_byte_less])
  moreover have "(unat a * 256 + unat b) mod 256 = unat b"
    by (rule digit_mod [OF unat_byte_less])
  ultimately have bytes:
    "?n div 65536 = unat a" "?n div 256 mod 256 = unat b" "?n mod 256 = unat c"
    by simp_all
  show ?case
    by (simp only: sextets_of.simps Let_def decode_group4 bytes "1" list.map)
next
  case (2 a b)
  let ?n = "unat a * 1024 + unat b * 4"
  have n4: "?n = (unat a * 256 + unat b) * 4"
    by simp
  have "?n div 4 = unat a * 256 + unat b"
    by (subst n4) simp
  moreover have "(unat a * 256 + unat b) div 256 = unat a"
    by (rule digit_div [OF unat_byte_less])
  moreover have "(unat a * 256 + unat b) mod 256 = unat b"
    by (rule digit_mod [OF unat_byte_less])
  ultimately have bytes: "?n div 4 div 256 = unat a" "?n div 4 mod 256 = unat b"
    by simp_all
  show ?case
    by (simp only: sextets_of.simps Let_def decode_group3 bytes list.map)
next
  case (3 a)
  have "unat a * 16 div 16 = unat a"
    by simp
  then show ?case
    by (simp only: sextets_of.simps Let_def decode_group2 list.map)
next
  case 4
  show ?case by simp
qed

lemma length_sextets_of:
  "length (sextets_of bs) mod 4 = (case length bs mod 3 of 0 \<Rightarrow> 0 | Suc 0 \<Rightarrow> 2 | _ \<Rightarrow> 3)"
  by (induction bs rule: sextets_of.induct) (simp_all add: Let_def)

lemma length_base64encode: "length (base64encode bs) mod 4 = 0"
  by (induction bs rule: base64encode.induct) (simp_all add: Let_def)

lemma unat_base64_char:
  "n < 64 \<Longrightarrow> unat (base64_char n) =
     (if n < 26 then n + 65 else if n < 52 then n + 71 else if n < 62 then n - 4
      else if n = 62 then 43 else 47)"
  by (simp add: base64_char_def unat_of_nat)

lemma base64_index_char: "n < 64 \<Longrightarrow> base64_index (base64_char n) = Some n"
  by (auto simp: base64_index_def unat_base64_char Let_def)

lemma base64_char_not_padding: "n < 64 \<Longrightarrow> base64_char n \<noteq> 0x3D"
proof
  assume "n < 64" and "base64_char n = 0x3D"
  then have "unat (base64_char n) = 61" by simp
  with \<open>n < 64\<close> show False
    by (simp add: unat_base64_char split: if_splits)
qed

lemma base64_char_not_whitespace: "n < 64 \<Longrightarrow> \<not> ascii_whitespace (base64_char n)"
proof
  assume "n < 64" and "ascii_whitespace (base64_char n)"
  then have "unat (base64_char n) \<in> {9, 10, 12, 13, 32}"
    by (auto simp: ascii_whitespace_def)
  with \<open>n < 64\<close> show False
    unfolding unat_base64_char [OF \<open>n < 64\<close>] by (simp split: if_splits) arith
qed


lemma those_base64_index:
  "\<forall>s \<in> set ss. s < 64 \<Longrightarrow> those (map base64_index (map base64_char ss)) = Some ss"
  by (induction ss) (simp_all add: base64_index_char)

lemma padding_of_cases:
  "padding_of bs = [] \<or> padding_of bs = [0x3D] \<or> padding_of bs = [0x3D, 0x3D]"
  by (induction bs rule: padding_of.induct) simp_all

lemma last_base64_char:
  assumes "ss \<noteq> []" and "\<forall>s \<in> set ss. s < 64"
  shows "last (map base64_char ss) \<noteq> 0x3D"
proof -
  have "last (map base64_char ss) = base64_char (last ss)"
    using assms(1) by (simp add: last_map)
  moreover have "last ss < 64"
    using assms by simp
  ultimately show ?thesis
    by (simp add: base64_char_not_padding)
qed

lemma strip_padding_base64encode:
  "strip_padding (base64encode bs) = map base64_char (sextets_of bs)"
proof -
  let ?body = "map base64_char (sextets_of bs)"
  have split: "base64encode bs = ?body @ padding_of bs"
    by (rule base64encode_split)
  have len: "length (?body @ padding_of bs) mod 4 = 0"
    using length_base64encode [of bs] by (simp only: split)
  have bound: "\<forall>s \<in> set (sextets_of bs). s < 64"
    by (simp add: sextets_of_bound)
  have not_pad: "sextets_of bs \<noteq> [] \<Longrightarrow> last ?body \<noteq> 0x3D"
    using last_base64_char [OF _ bound] by simp
  consider "padding_of bs = []" | "padding_of bs = [0x3D]" | "padding_of bs = [0x3D, 0x3D]"
    using padding_of_cases by blast
  then have "strip_padding (?body @ padding_of bs) = ?body"
  proof cases
    case 1
    show ?thesis
    proof (cases "sextets_of bs = []")
      case True
      with 1 show ?thesis by (simp add: strip_padding_def)
    next
      case False
      with 1 not_pad show ?thesis by (simp add: strip_padding_def)
    qed
  next
    case 2
    have "sextets_of bs \<noteq> []"
      using len 2 by auto
    with 2 not_pad len show ?thesis
      by (simp add: strip_padding_def)
  next
    case 3
    with len show ?thesis
      by (simp add: strip_padding_def butlast_append)
  qed
  then show ?thesis
    by (simp only: split)
qed

lemma no_whitespace_base64encode:
  "filter (\<lambda>c. \<not> ascii_whitespace c) (base64encode bs) = base64encode bs"
proof -
  have "\<not> ascii_whitespace 0x3D"
    by (simp add: ascii_whitespace_def)
  then have "\<forall>c \<in> set (padding_of bs). \<not> ascii_whitespace c"
    using padding_of_cases [of bs] by auto
  moreover have "\<forall>c \<in> set (map base64_char (sextets_of bs)). \<not> ascii_whitespace c"
    by (auto simp: sextets_of_bound base64_char_not_whitespace)
  ultimately show ?thesis
    by (simp add: base64encode_split)
qed

lemma atob_base64encode:
  "atob (base64encode bs) = Inr (map (\<lambda>b. of_nat (unat b)) bs)"
proof -
  have "length (sextets_of bs) mod 4 \<noteq> 1"
    by (simp add: length_sextets_of split: nat.split)
  moreover have "those (map base64_index (map base64_char (sextets_of bs))) = Some (sextets_of bs)"
    by (rule those_base64_index) (simp add: sextets_of_bound)
  ultimately show ?thesis
    by (simp add: atob_def no_whitespace_base64encode strip_padding_base64encode
        decode_sextets_of comp_def)
qed

lemma bytes_loop_length: "length (bytes_loop s len i bytes) = length bytes"
proof (induction s len i bytes rule: bytes_loop.induct)
  case (1 s len i bytes)
  show ?case
  proof (cases "i < len")
    case True
    with "1" show ?thesis
      by (subst bytes_loop.simps) (simp add: typed_store_def)
  next
    case False
    then show ?thesis
      by (subst bytes_loop.simps) simp
  qed
qed

lemma bytes_loop_nth:
  "j < length bytes \<Longrightarrow>
   bytes_loop s len i bytes ! j =
     (if i \<le> j \<and> j < len then ToUint8 (charCodeAt s j) else bytes ! j)"
proof (induction s len i bytes rule: bytes_loop.induct)
  case (1 s len i bytes)
  show ?case
  proof (cases "i < len")
    case True
    let ?bytes = "typed_store bytes i (ToUint8 (charCodeAt s i))"
    have len: "j < length ?bytes"
      using "1.prems" by (simp add: typed_store_def)
    have step: "bytes_loop s len i bytes = bytes_loop s len (Suc i) ?bytes"
      using True by (subst bytes_loop.simps) simp
    from "1.IH" [OF True len] "1.prems" True show ?thesis
      by (cases "j = i") (auto simp: step typed_store_def)
  next
    case False
    then show ?thesis
      by (subst bytes_loop.simps) auto
  qed
qed

lemma bytes_loop_all:
  "bytes_loop s (length s) 0 (replicate (length s) 0) = map ucast s"
  by (rule nth_equalityI)
    (simp_all add: bytes_loop_length bytes_loop_nth ToUint8_def charCodeAt_def)

lemma decode_atob:
  "atob base64 = Inr binaryString \<Longrightarrow> decode base64 = Inr (map ucast binaryString)"
  by (simp add: decode_def bytes_loop_all)

lemma map_ucast_of_nat_unat:
  "map ucast (map (\<lambda>b. of_nat (unat b) :: 16 word) bs) = (bs :: byte list)"
  by (simp add: comp_def ucast_up_ucast_id is_up)

lemma base64_index_bound: "base64_index c = Some n \<Longrightarrow> n < 64"
  by (auto simp: base64_index_def Let_def split: if_splits)

lemma those_base64_index_bound:
  "those (map base64_index d) = Some ss \<Longrightarrow> \<forall>s \<in> set ss. s < 64"
proof (induction d arbitrary: ss)
  case Nil
  then show ?case by simp
next
  case (Cons c d)
  then show ?case
    by (auto simp: base64_index_bound split: option.splits)
qed

lemma decode_sextets_bound:
  "\<forall>s \<in> set ss. s < 64 \<Longrightarrow> \<forall>b \<in> set (decode_sextets ss). b < 256"
proof (induction ss rule: decode_sextets.induct)
  case (1 a b c d rest)
  then have "a < 64" "b < 64" "c < 64" "d < 64" by simp_all
  then have "((a * 64 + b) * 64 + c) * 64 + d < 65536 * 256"
    by simp
  then have "(((a * 64 + b) * 64 + c) * 64 + d) div 65536 < 256"
    by (simp add: less_mult_imp_div_less)
  with "1" show ?case
    by (simp add: Let_def)
next
  case (2 a b c)
  then have "a < 64" "b < 64" "c < 64" by simp_all
  then have "(a * 64 + b) * 64 + c < 4 * 65536"
    by simp
  then have "((a * 64 + b) * 64 + c) div 4 < 256 * 256"
    by (simp add: less_mult_imp_div_less)
  then have "((a * 64 + b) * 64 + c) div 4 div 256 < 256"
    by (simp add: less_mult_imp_div_less)
  then show ?case
    by (simp add: Let_def)
next
  case (3 a b)
  then have "a < 64" "b < 64" by simp_all
  then have "a * 64 + b < 16 * 256"
    by simp
  then have "(a * 64 + b) div 16 < 256"
    by (simp add: less_mult_imp_div_less)
  then show ?case
    by simp
qed simp_all

lemma atob_binary:
  assumes "atob s = Inr binaryString"
  shows "\<forall>c \<in> set binaryString. unat c < 256"
proof -
  let ?d = "strip_padding (filter (\<lambda>c. \<not> ascii_whitespace c) s)"
  from assms obtain ss where ss: "those (map base64_index ?d) = Some ss"
    and bin: "binaryString = map of_nat (decode_sextets ss)"
    by (auto simp: atob_def Let_def split: if_splits option.splits)
  have "\<forall>b \<in> set (decode_sextets ss). b < 256"
    using those_base64_index_bound [OF ss] by (rule decode_sextets_bound)
  then show ?thesis
    by (auto simp: bin unat_of_nat)
qed

text \<open>
  Claim C10. \<^verbatim>\<open>decode\<close> undoes the standard base64 encoding of every byte array. For
  every string that \<^verbatim>\<open>atob\<close> accepts, the array returned has the length of the decoded
  binary string, and byte \<open>i\<close> is the code of its character \<open>i\<close>; when \<^verbatim>\<open>atob\<close> throws,
  \<^verbatim>\<open>decode\<close> throws the same exception.
\<close>

theorem decode_inverts_base64:
  "decode (base64encode b) = Inr b
   \<and> (atob s = Inr binaryString \<longrightarrow>
        (\<exists>bytes. decode s = Inr bytes \<and> length bytes = length binaryString
           \<and> (\<forall>i < length binaryString. unat (bytes ! i) = unat (binaryString ! i))))
   \<and> (atob s = Inl e \<longrightarrow> decode s = Inl e)"
proof (intro conjI impI)
  show "decode (base64encode b) = Inr b"
    using decode_atob [OF atob_base64encode] by (simp only: map_ucast_of_nat_unat)
next
  assume ok: "atob s = Inr binaryString"
  have "\<forall>i < length binaryString.
          unat (map ucast binaryString ! i :: byte) = unat (binaryString ! i)"
    using atob_binary [OF ok] by (simp add: unsigned_ucast_eq take_bit_eq_mod)
  with decode_atob [OF ok]
  show "\<exists>bytes. decode s = Inr bytes \<and> length bytes = length binaryString
           \<and> (\<forall>i < length binaryString. unat (bytes ! i) = unat (binaryString ! i))"
    by simp
next
  assume "atob s = Inl e"
  then show "decode s = Inl e"
    by (simp add: decode_def)
qed

theorem decode_inverts_base64_witness:
  "atob (js ''TWE='') = Inr (js ''Ma'')
   \<and> decode (js ''TWE='') = Inr [0x4D, 0x61]
   \<and> atob (js ''T'') = Inl InvalidCharacterError
   \<and> decode (js ''T'') = Inl InvalidCharacterError
   \<and> base64encode [0xFF, 0xEF] = js ''/+8=''
   \<and> decode (base64encode [0xFF, 0xEF]) = Inr [0xFF, 0xEF]"
  using decode_inverts_base64 [of "[0xFF, 0xEF]" "js ''TWE=''" "js ''Ma''" InvalidCharacterError]
    decode_inverts_base64 [of "[]" "js ''T''" "[]" InvalidCharacterError]
  by (simp add: js_def atob_def decode_def strip_padding_def ascii_whitespace_def base64_index_def
      base64_char_def bytes_loop.simps typed_store_def ToUint8_def charCodeAt_def replicate_numeral)

section \<open>Properties of the audio decoder\<close>

lemma sample_loop_length:
  "length (sample_loop d n fc c i cd) = length cd"
proof (induction d n fc c i cd rule: sample_loop.induct)
  case (1 d n fc c i cd)
  show ?case
  proof (cases "rat_of_nat i < fc")
    case True
    with "1" show ?thesis
      by (subst sample_loop.simps) (simp add: typed_store_def)
  next
    case False
    then show ?thesis
      by (subst sample_loop.simps) simp
  qed
qed

lemma sample_loop_nth:
  "j < length cd \<Longrightarrow>
   sample_loop d n fc c i cd ! j =
     (if i \<le> j \<and> rat_of_nat j < fc then sample_value (typed_read d (j * n + c)) else cd ! j)"
proof (induction d n fc c i cd rule: sample_loop.induct)
  case (1 d n fc c i cd)
  show ?case
  proof (cases "rat_of_nat i < fc")
    case True
    let ?cd = "typed_store cd i (sample_value (typed_read d (i * n + c)))"
    have len: "j < length ?cd"
      using "1.prems" by (simp add: typed_store_def)
    have step: "sample_loop d n fc c i cd = sample_loop d n fc c (Suc i) ?cd"
      using True by (subst sample_loop.simps) simp
    show ?thesis
    proof (cases "j = i")
      case True
      with \<open>rat_of_nat i < fc\<close> "1.IH" [OF \<open>rat_of_nat i < fc\<close> len] "1.prems" show ?thesis
        by (simp add: step typed_store_def)
    next
      case False
      with "1.IH" [OF True len] "1.prems" show ?thesis
        by (auto simp: step typed_store_def)
    qed
  next
    case False
    have "\<not> (i \<le> j \<and> rat_of_nat j < fc)"
    proof
      assume "i \<le> j \<and> rat_of_nat j < fc"
      then have "rat_of_nat i \<le> rat_of_nat j" and "rat_of_nat j < fc" by simp_all
      with False show False by simp
    qed
    with False show ?thesis
      by (subst sample_loop.simps) auto
  qed
qed

lemma channel_loop_result:
  "n \<le> length (channels b) \<Longrightarrow>
   \<exists>b'. channel_loop d n fc k b = Inr b'
      \<and> sampleRate b' = sampleRate b \<and> frames b' = frames b
      \<and> length (channels b') = length (channels b)
      \<and> (\<forall>c < length (channels b). channels b' ! c =
           (if k \<le> c \<and> c < n then sample_loop d n fc c 0 (channels b ! c) else channels b ! c))"
proof (induction d n fc k b rule: channel_loop.induct)
  case (1 d n fc k b)
  show ?case
  proof (cases "k < n")
    case True
    let ?b = "b\<lparr>channels := (channels b)[k := sample_loop d n fc k 0 (channels b ! k)]\<rparr>"
    have get: "getChannelData b k = Inr (channels b ! k)"
      using True "1.prems" by (simp add: getChannelData_def)
    have step: "channel_loop d n fc k b = channel_loop d n fc (Suc k) ?b"
      using True get by (subst channel_loop.simps) simp
    have "n \<le> length (channels ?b)"
      using "1.prems" by simp
    from "1.IH" [OF True get this] obtain b' where b':
      "channel_loop d n fc (Suc k) ?b = Inr b'"
      "sampleRate b' = sampleRate b" "frames b' = frames b"
      "length (channels b') = length (channels b)"
      "\<forall>c < length (channels b). channels b' ! c =
         (if Suc k \<le> c \<and> c < n then sample_loop d n fc c 0 (channels ?b ! c) else channels ?b ! c)"
      by auto
    have "\<forall>c < length (channels b). channels b' ! c =
           (if k \<le> c \<and> c < n then sample_loop d n fc c 0 (channels b ! c) else channels b ! c)"
    proof (intro allI impI)
      fix c assume c: "c < length (channels b)"
      show "channels b' ! c =
           (if k \<le> c \<and> c < n then sample_loop d n fc c 0 (channels b ! c) else channels b ! c)"
      proof (cases "c = k")
        case True
        with b'(5) c \<open>k < n\<close> show ?thesis by simp
      next
        case False
        with b'(5) c show ?thesis by auto
      qed
    qed
    with b' show ?thesis
      by (simp add: step)
  next
    case False
    then show ?thesis
      by (subst channel_loop.simps) auto
  qed
qed

lemma int16_view_length: "length (int16_view bs) = length bs div 2"
  by (induction bs rule: int16_view.induct) simp_all

lemma ToUint32_frames:
  "0 < n \<Longrightarrow> ToUint32 (rat_of_nat m / rat_of_nat n) = (m div n) mod 2 ^ 32"
proof -
  assume "0 < n"
  have "\<lfloor>rat_of_nat m / rat_of_nat n\<rfloor> = int (m div n)"
    by (simp add: floor_divide_of_nat_eq)
  moreover have "\<not> rat_of_nat m / rat_of_nat n < 0"
    by (simp add: not_less)
  ultimately show ?thesis
    by (simp add: ToUint32_def nat_mod_distrib flip: zmod_int)
qed


lemma decodeAudioData_InrD:
  assumes "decodeAudioData data ctx rate n = Inr buf"
  shows "even (length data) \<and> 0 < n
    \<and> sampleRate buf = rate
    \<and> frames buf = (length data div 2 div n) mod 2 ^ 32 \<and> 0 < frames buf
    \<and> length (channels buf) = n
    \<and> (\<forall>c < n. channels buf ! c =
          sample_loop (int16_view data) n
            (rat_of_nat (length data div 2) / rat_of_nat n) c 0
            (replicate (frames buf) (Num 0)))"
proof -
  let ?fc = "rat_of_nat (length data div 2) / rat_of_nat n"
  let ?len = "ToUint32 ?fc"
  from assms have ev: "even (length data)"
    by (auto simp: decodeAudioData_def Int16Array_def split: if_splits)
  with assms obtain b where
    b: "createBuffer ctx n ?len rate = Inr b"
    and loop: "channel_loop (int16_view data) n ?fc 0 b = Inr buf"
    by (auto simp: decodeAudioData_def Int16Array_def int16_view_length Let_def split: sum.splits)
  from b have n: "0 < n" and len: "?len \<noteq> 0"
    and b_eq: "b = \<lparr>sampleRate = rate, frames = ?len,
                     channels = replicate n (replicate ?len (Num 0))\<rparr>"
    by (auto simp: createBuffer_def split: if_splits)
  have "n \<le> length (channels b)"
    by (simp add: b_eq)
  from channel_loop_result [OF this, of "int16_view data" ?fc 0] loop
  have res: "sampleRate buf = sampleRate b" "frames buf = frames b"
    "length (channels buf) = length (channels b)"
    "\<forall>c < length (channels b). channels buf ! c =
       (if 0 \<le> c \<and> c < n then sample_loop (int16_view data) n ?fc c 0 (channels b ! c)
        else channels b ! c)"
    by auto
  have fr: "frames buf = (length data div 2 div n) mod 2 ^ 32"
    using res(2) n by (simp add: b_eq ToUint32_frames)
  have "\<forall>c < n. channels buf ! c =
          sample_loop (int16_view data) n ?fc c 0 (replicate (frames buf) (Num 0))"
    using res(2,4) by (simp add: b_eq)
  with ev n res(1,3) fr len res(2) show ?thesis
    by (simp add: b_eq)
qed

lemma decodeAudioData_ok:
  assumes "even (length data)" and "0 < n" and "n \<le> maxChannels ctx"
    and "minSampleRate ctx \<le> rate" and "rate \<le> maxSampleRate ctx"
    and "(length data div 2 div n) mod 2 ^ 32 \<noteq> 0"
  shows "\<exists>buf. decodeAudioData data ctx rate n = Inr buf"
proof -
  let ?fc = "rat_of_nat (length data div 2) / rat_of_nat n"
  let ?b = "\<lparr>sampleRate = rate, frames = ToUint32 ?fc,
             channels = replicate n (replicate (ToUint32 ?fc) (Num 0))\<rparr>"
  have "createBuffer ctx n (ToUint32 ?fc) rate = Inr ?b"
    using assms by (simp add: createBuffer_def ToUint32_frames)
  moreover have "n \<le> length (channels ?b)"
    by simp
  from channel_loop_result [OF this, of "int16_view data" ?fc 0]
  obtain buf where "channel_loop (int16_view data) n ?fc 0 ?b = Inr buf"
    by blast
  ultimately show ?thesis
    using assms(1)
    by (simp add: decodeAudioData_def Int16Array_def int16_view_length)
qed

lemma frame_index_bounds:
  assumes "i < (m div n) mod 2 ^ 32" and "c < n"
  shows "i * n + c < m" and "rat_of_nat i < rat_of_nat m / rat_of_nat n"
proof -
  have "(m div n) mod 2 ^ 32 \<le> m div n"
    by simp
  with assms(1) have "Suc i \<le> m div n"
    by linarith
  then have "Suc i * n \<le> m div n * n"
    by (rule mult_le_mono1)
  also have "\<dots> \<le> m"
    by simp
  finally have le: "Suc i * n \<le> m" .
  with assms(2) show "i * n + c < m"
    by simp
  from assms(2) have n: "0 < n" by simp
  from le n have "i * n < m" by simp
  then have "rat_of_nat (i * n) < rat_of_nat m"
    by (simp only: of_nat_less_iff)
  then have "rat_of_nat i * rat_of_nat n < rat_of_nat m"
    by simp
  with n show "rat_of_nat i < rat_of_nat m / rat_of_nat n"
    by (simp add: pos_less_divide_eq)
qed

lemma sample_of_returned_buffer:
  assumes "decodeAudioData data ctx rate numChannels = Inr buffer"
    and "c < numChannels" and "i < frames buffer"
  shows "Int16Array data = Inr (int16_view data)
    \<and> i * numChannels + c < length (int16_view data)
    \<and> channels buffer ! c ! i =
        Num (rat_of_int (sint (int16_view data ! (i * numChannels + c))) / 32768)
    \<and> length (channels buffer) = numChannels
    \<and> sampleRate buffer = rate"
proof -
  let ?pcm = "int16_view data"
  let ?fc = "rat_of_nat (length data div 2) / rat_of_nat numChannels"
  from decodeAudioData_InrD [OF assms(1)]
  have ev: "even (length data)" and rate: "sampleRate buffer = rate"
    and fr: "frames buffer = (length data div 2 div numChannels) mod 2 ^ 32"
    and len: "length (channels buffer) = numChannels"
    and ch: "channels buffer ! c =
      sample_loop ?pcm numChannels ?fc c 0 (replicate (frames buffer) (Num 0))"
    using assms(2) by simp_all
  from assms(3) fr have i: "i < (length data div 2 div numChannels) mod 2 ^ 32"
    by simp
  note bounds = frame_index_bounds [OF i assms(2)]
  have idx: "i * numChannels + c < length ?pcm"
    using bounds(1) by (simp add: int16_view_length)
  have "channels buffer ! c ! i = sample_value (typed_read ?pcm (i * numChannels + c))"
    using assms(3) bounds(2) by (simp add: ch sample_loop_nth)
  also have "\<dots> = Num (rat_of_int (sint (?pcm ! (i * numChannels + c))) / 32768)"
    using idx by (simp add: typed_read_def sample_value_def)
  finally show ?thesis
    using ev idx len rate by (simp add: Int16Array_def)
qed

lemma decodeAudioData_returns_iff:
  "(\<exists>buffer. decodeAudioData data ctx rate numChannels = Inr buffer) \<longleftrightarrow>
     even (length data) \<and> 0 < numChannels \<and> numChannels \<le> maxChannels ctx
     \<and> minSampleRate ctx \<le> rate \<and> rate \<le> maxSampleRate ctx
     \<and> (length data div 2 div numChannels) mod 2 ^ 32 \<noteq> 0"
proof
  assume "\<exists>buffer. decodeAudioData data ctx rate numChannels = Inr buffer"
  then obtain buffer where ok: "decodeAudioData data ctx rate numChannels = Inr buffer"
    by blast
  from decodeAudioData_InrD [OF ok]
  have ev: "even (length data)" and pos: "0 < numChannels"
    and fr: "frames buffer = (length data div 2 div numChannels) mod 2 ^ 32" "0 < frames buffer"
    by simp_all
  from ok ev obtain b where
    "createBuffer ctx numChannels
       (ToUint32 (rat_of_nat (length data div 2) / rat_of_nat numChannels)) rate = Inr b"
    by (auto simp: decodeAudioData_def Int16Array_def int16_view_length Let_def split: sum.splits)
  then have "numChannels \<le> maxChannels ctx" "minSampleRate ctx \<le> rate" "rate \<le> maxSampleRate ctx"
    by (auto simp: createBuffer_def split: if_splits)
  with ev pos fr show "even (length data) \<and> 0 < numChannels \<and> numChannels \<le> maxChannels ctx
     \<and> minSampleRate ctx \<le> rate \<and> rate \<le> maxSampleRate ctx
     \<and> (length data div 2 div numChannels) mod 2 ^ 32 \<noteq> 0"
    by simp
next
  assume "even (length data) \<and> 0 < numChannels \<and> numChannels \<le> maxChannels ctx
     \<and> minSampleRate ctx \<le> rate \<and> rate \<le> maxSampleRate ctx
     \<and> (length data div 2 div numChannels) mod 2 ^ 32 \<noteq> 0"
  then show "\<exists>buffer. decodeAudioData data ctx rate numChannels = Inr buffer"
    using decodeAudioData_ok [of data numChannels ctx rate] by simp
qed

text \<open>
  Claim C6, as the code has it. For a payload of even length and a channel count \<open>C \<ge> 1\<close>
  that the context supports, with a supported sample rate and a buffer length
  (\<open>floor(L/2/C)\<close> modulo \<open>2^32\<close>) that is not zero, the decoder returns a buffer of \<open>C\<close>
  channels with the sample rate passed in, and the sample of every channel \<open>c\<close> at every
  frame \<open>i\<close> of it is element \<open>i * C + c\<close> of the 16-bit view, divided by \<open>32768\<close>, exactly.
  So \<open>-32768\<close> gives \<open>-1\<close>, \<open>32767\<close> gives \<open>32767/32768\<close> and \<open>0\<close> gives \<open>0\<close>. These are all
  the payloads that have decoded samples (\<open>decodeAudioData_returns_iff\<close>): for any
  other, such as a payload of odd length, the decoder throws and no sample exists.
\<close>

theorem decoded_sample_value:
  assumes "even (length data)" and "1 \<le> numChannels" and "numChannels \<le> maxChannels ctx"
    and "minSampleRate ctx \<le> rate" and "rate \<le> maxSampleRate ctx"
    and "(length data div 2 div numChannels) mod 2 ^ 32 \<noteq> 0"
  shows "\<exists>buffer. decodeAudioData data ctx rate numChannels = Inr buffer
    \<and> Int16Array data = Inr (int16_view data)
    \<and> length (channels buffer) = numChannels
    \<and> sampleRate buffer = rate
    \<and> frames buffer = (length data div 2 div numChannels) mod 2 ^ 32
    \<and> (\<forall>c < numChannels. \<forall>i < frames buffer.
          i * numChannels + c < length (int16_view data)
          \<and> channels buffer ! c ! i =
              Num (rat_of_int (sint (int16_view data ! (i * numChannels + c))) / 32768))"
proof -
  have pos: "0 < numChannels"
    using assms(2) by simp
  from decodeAudioData_ok [OF assms(1) pos assms(3) assms(4) assms(5) assms(6)]
  obtain buffer where ok: "decodeAudioData data ctx rate numChannels = Inr buffer"
    by blast
  from decodeAudioData_InrD [OF ok]
  have fr: "frames buffer = (length data div 2 div numChannels) mod 2 ^ 32"
    and len: "length (channels buffer) = numChannels" and rate: "sampleRate buffer = rate"
    by simp_all
  have view: "Int16Array data = Inr (int16_view data)"
    using assms(1) by (simp add: Int16Array_def)
  have "\<forall>c < numChannels. \<forall>i < frames buffer.
          i * numChannels + c < length (int16_view data)
          \<and> channels buffer ! c ! i =
              Num (rat_of_int (sint (int16_view data ! (i * numChannels + c))) / 32768)"
    using sample_of_returned_buffer [OF ok] by blast
  with ok view len rate fr show ?thesis
    by blast
qed

lemma decode_pcm_four:
  "decodeAudioData pcm_four browser_ctx 24000 2 =
     Inr \<lparr>sampleRate = 24000, frames = 2,
          channels = [[Num (- 1), Num 0], [Num (32767 / 32768), Num (1 / 32768)]]\<rparr>"
  by (simp add: pcm_four_def decodeAudioData_def Int16Array_def createBuffer_def browser_ctx_def
      ToUint32_def channel_loop.simps sample_loop.simps getChannelData_def typed_read_def
      typed_store_def sample_value_def replicate_numeral word_cat_eq Let_def)

lemma ToUint32_three_halves: "ToUint32 (3 / 2) = 1"
  using ToUint32_frames [of 2 3] by simp

lemma decode_pcm_three:
  "decodeAudioData pcm_three browser_ctx 24000 2 =
     Inr \<lparr>sampleRate = 24000, frames = 1,
          channels = [[Num (- 1)], [Num (32767 / 32768)]]\<rparr>"
  by (simp add: pcm_three_def decodeAudioData_def Int16Array_def createBuffer_def browser_ctx_def
      ToUint32_three_halves channel_loop.simps sample_loop.simps getChannelData_def typed_read_def
      typed_store_def sample_value_def replicate_numeral word_cat_eq Let_def)

theorem decoded_sample_value_witness:
  "even (length pcm_four) \<and> (1::nat) \<le> 2 \<and> 2 \<le> maxChannels browser_ctx
   \<and> minSampleRate browser_ctx \<le> 24000 \<and> 24000 \<le> maxSampleRate browser_ctx
   \<and> (length pcm_four div 2 div 2) mod 2 ^ 32 \<noteq> 0
   \<and> int16_view pcm_four = [- 32768, 32767, 0, 1]
   \<and> (\<exists>buffer. decodeAudioData pcm_four browser_ctx 24000 2 = Inr buffer
        \<and> length (channels buffer) = 2 \<and> sampleRate buffer = 24000 \<and> frames buffer = 2
        \<and> channels buffer ! 0 ! 0 = Num (- 1)
        \<and> channels buffer ! 1 ! 0 = Num (32767 / 32768)
        \<and> channels buffer ! 0 ! 1 = Num 0
        \<and> channels buffer ! 1 ! 1 = Num (1 / 32768))"
proof -
  have h: "even (length pcm_four)" "(1::nat) \<le> 2" "2 \<le> maxChannels browser_ctx"
    "minSampleRate browser_ctx \<le> 24000" "24000 \<le> maxSampleRate browser_ctx"
    "(length pcm_four div 2 div 2) mod 2 ^ 32 \<noteq> 0"
    by (simp_all add: pcm_four_def browser_ctx_def)
  have view: "int16_view pcm_four = [- 32768, 32767, 0, 1]"
    by (simp add: pcm_four_def word_cat_eq)
  have fr: "(length pcm_four div 2 div 2) mod 2 ^ 32 = 2"
    by (simp add: pcm_four_def)
  from decoded_sample_value [OF h] obtain buffer where
    ok: "decodeAudioData pcm_four browser_ctx 24000 2 = Inr buffer"
    and shape: "length (channels buffer) = 2" "sampleRate buffer = 24000"
    and frames: "frames buffer = 2"
    and samples: "\<forall>c < 2. \<forall>i < frames buffer.
        i * 2 + c < length (int16_view pcm_four)
        \<and> channels buffer ! c ! i =
            Num (rat_of_int (sint (int16_view pcm_four ! (i * 2 + c))) / 32768)"
    unfolding fr by blast
  from samples frames have
    "channels buffer ! 0 ! 0 = Num (rat_of_int (sint (int16_view pcm_four ! (0 * 2 + 0))) / 32768)"
    "channels buffer ! 1 ! 0 = Num (rat_of_int (sint (int16_view pcm_four ! (0 * 2 + 1))) / 32768)"
    "channels buffer ! 0 ! 1 = Num (rat_of_int (sint (int16_view pcm_four ! (1 * 2 + 0))) / 32768)"
    "channels buffer ! 1 ! 1 = Num (rat_of_int (sint (int16_view pcm_four ! (1 * 2 + 1))) / 32768)"
    by simp_all
  then have
    "channels buffer ! 0 ! 0 = Num (- 1)" "channels buffer ! 1 ! 0 = Num (32767 / 32768)"
    "channels buffer ! 0 ! 1 = Num 0" "channels buffer ! 1 ! 1 = Num (1 / 32768)"
    by (simp_all add: view)
  with ok shape frames have "\<exists>buffer. decodeAudioData pcm_four browser_ctx 24000 2 = Inr buffer
        \<and> length (channels buffer) = 2 \<and> sampleRate buffer = 24000 \<and> frames buffer = 2
        \<and> channels buffer ! 0 ! 0 = Num (- 1)
        \<and> channels buffer ! 1 ! 0 = Num (32767 / 32768)
        \<and> channels buffer ! 0 ! 1 = Num 0
        \<and> channels buffer ! 1 ! 1 = Num (1 / 32768)"
    by blast
  with h view show ?thesis
    by simp
qed

theorem no_sample_of_odd_payload_counterexample:
  "length stray_byte_payload = 5
   \<and> decodeAudioData stray_byte_payload browser_ctx 24000 1 = Inl RangeError"
  by (simp add: stray_byte_payload_def decodeAudioData_def Int16Array_def)

text \<open>
  Claim C5, as the code has it. For a payload of even length \<open>L\<close> and a channel count
  \<open>C \<ge> 1\<close> that the context supports, with a supported sample rate and at least one whole
  frame (fewer than \<open>2^32\<close> of them), the decoder returns a buffer of \<open>floor(L/2/C)\<close>
  frames in each of its \<open>C\<close> channels: the quotient is truncated, so three samples on two
  channels give one frame. A payload of odd length has no decoded frame count: the
  16-bit view of its buffer cannot be built and the decoder throws.
\<close>

theorem decoded_frame_count:
  assumes "even (length data)" and "1 \<le> numChannels" and "numChannels \<le> maxChannels ctx"
    and "minSampleRate ctx \<le> rate" and "rate \<le> maxSampleRate ctx"
    and "numChannels \<le> length data div 2"
    and "length data div 2 div numChannels < 2 ^ 32"
  shows "\<exists>buffer. decodeAudioData data ctx rate numChannels = Inr buffer
    \<and> frames buffer = length data div 2 div numChannels
    \<and> length (channels buffer) = numChannels
    \<and> (\<forall>c < numChannels. length (channels buffer ! c) = length data div 2 div numChannels)"
proof -
  let ?n = "length data div 2 div numChannels"
  have pos: "0 < numChannels"
    using assms(2) by simp
  have "numChannels div numChannels \<le> ?n"
    using assms(6) by (rule div_le_mono)
  with pos have "0 < ?n"
    by simp
  with assms(7) have nz: "?n mod 2 ^ 32 \<noteq> 0"
    by simp
  from decodeAudioData_ok [OF assms(1) pos assms(3) assms(4) assms(5) nz]
  obtain buffer where ok: "decodeAudioData data ctx rate numChannels = Inr buffer"
    by blast
  from decodeAudioData_InrD [OF ok] assms(7)
  have fr: "frames buffer = ?n" and len: "length (channels buffer) = numChannels"
    and ch: "\<forall>c < numChannels. channels buffer ! c =
          sample_loop (int16_view data) numChannels
            (rat_of_nat (length data div 2) / rat_of_nat numChannels) c 0
            (replicate (frames buffer) (Num 0))"
    by simp_all
  have "\<forall>c < numChannels. length (channels buffer ! c) = ?n"
    using ch fr by (simp add: sample_loop_length)
  with ok fr len show ?thesis
    by blast
qed

theorem decoded_frame_count_witness:
  "even (length pcm_three) \<and> (1::nat) \<le> 2 \<and> 2 \<le> maxChannels browser_ctx
   \<and> minSampleRate browser_ctx \<le> 24000 \<and> 24000 \<le> maxSampleRate browser_ctx
   \<and> 2 \<le> length pcm_three div 2 \<and> length pcm_three div 2 div 2 < (2::nat) ^ 32
   \<and> length pcm_three div 2 = 3
   \<and> (\<exists>buffer. decodeAudioData pcm_three browser_ctx 24000 2 = Inr buffer
        \<and> frames buffer = 1 \<and> length (channels buffer) = 2)"
proof -
  have h: "even (length pcm_three)" "(1::nat) \<le> 2" "2 \<le> maxChannels browser_ctx"
    "minSampleRate browser_ctx \<le> 24000" "24000 \<le> maxSampleRate browser_ctx"
    "2 \<le> length pcm_three div 2" "length pcm_three div 2 div 2 < (2::nat) ^ 32"
    and l: "length pcm_three div 2 = 3"
    by (simp_all add: pcm_three_def browser_ctx_def)
  from decoded_frame_count [OF h] l
  have "\<exists>buffer. decodeAudioData pcm_three browser_ctx 24000 2 = Inr buffer
        \<and> frames buffer = 1 \<and> length (channels buffer) = 2"
    by auto
  with h l show ?thesis
    by simp
qed

theorem odd_payload_counterexample:
  "length odd_payload = 3 \<and> decodeAudioData odd_payload browser_ctx 24000 1 = Inl RangeError"
  by (simp add: odd_payload_def decodeAudioData_def Int16Array_def)

section \<open>Properties of the JSON parser\<close>

lemmas json_eval = JSON_parse_def parse_value.simps parse_elements.simps parse_members.simps
  parse_scalar_def parse_chars.simps parse_escape_def parse_hex4_def hex_value_def escape_char_def
  parse_number_def parse_int_part_def parse_fraction_def parse_exponent_def digits1_def is_digit_def
  skip_ws_def json_ws_def js_def

lemma digits1_shorter: "digits1 s = Some (ds, rest) \<Longrightarrow> length rest < length s"
proof -
  assume a: "digits1 s = Some (ds, rest)"
  then have ds: "takeWhile is_digit s \<noteq> []" and rest: "rest = dropWhile is_digit s"
    by (auto simp: digits1_def Let_def split: if_splits)
  have "length (takeWhile is_digit s) + length (dropWhile is_digit s) = length s"
    by (metis length_append takeWhile_dropWhile_id)
  with ds rest show ?thesis
    by (cases "takeWhile is_digit s") auto
qed

lemma parse_int_part_shorter: "parse_int_part s = Some (ip, rest) \<Longrightarrow> length rest < length s"
  by (auto simp: parse_int_part_def split: list.splits if_splits dest: digits1_shorter)

lemma parse_fraction_shorter: "parse_fraction s = Some (fp, rest) \<Longrightarrow> length rest \<le> length s"
  by (auto simp: parse_fraction_def split: list.splits if_splits option.splits
      dest!: digits1_shorter)

lemma parse_exponent_shorter: "parse_exponent s = Some (ep, rest) \<Longrightarrow> length rest \<le> length s"
  by (auto simp: parse_exponent_def split: list.splits if_splits option.splits
      dest!: digits1_shorter)

lemma parse_number_shorter: "parse_number s = Some (lexeme, rest) \<Longrightarrow> length rest < length s"
proof -
  assume a: "parse_number s = Some (lexeme, rest)"
  obtain sign s1 where s1: "(case s of [] \<Rightarrow> ([], s) | c # cs \<Rightarrow> if c = 0x2D then ([c], cs) else ([], s)) = (sign, s1)"
    by (cases "(case s of [] \<Rightarrow> ([], s) | c # cs \<Rightarrow> if c = 0x2D then ([c], cs) else ([], s))") auto
  then have l1: "length s1 \<le> length s"
    by (auto split: list.splits if_splits)
  from a s1 obtain ip s2 fp s3 ep where
    "parse_int_part s1 = Some (ip, s2)" "parse_fraction s2 = Some (fp, s3)"
    "parse_exponent s3 = Some (ep, rest)"
    by (auto simp: parse_number_def split: option.splits)
  with l1 show ?thesis
    using parse_int_part_shorter [of s1 ip s2] parse_fraction_shorter [of s2 fp s3]
      parse_exponent_shorter [of s3 ep rest]
    by simp
qed

lemma take_eq_length: "take n s = t \<Longrightarrow> length t = n \<Longrightarrow> n \<le> length s"
  by (metis length_take min.cobounded1 min_def not_le_imp_less order_less_imp_le take_all)

lemma parse_scalar_shorter: "parse_scalar s = Some (v, rest) \<Longrightarrow> length rest < length s"
proof -
  assume a: "parse_scalar s = Some (v, rest)"
  then obtain c cs where s: "s = c # cs"
    by (cases s) (auto simp: parse_scalar_def)
  consider (str) "c = 0x22"
    | (t) "c \<noteq> 0x22" "take 4 s = js ''true''"
    | (f) "c \<noteq> 0x22" "take 4 s \<noteq> js ''true''" "take 5 s = js ''false''"
    | (n) "c \<noteq> 0x22" "take 4 s \<noteq> js ''true''" "take 5 s \<noteq> js ''false''" "take 4 s = js ''null''"
    | (num) "c \<noteq> 0x22" "take 4 s \<noteq> js ''true''" "take 5 s \<noteq> js ''false''" "take 4 s \<noteq> js ''null''"
    by blast
  then show ?thesis
  proof cases
    case str
    with a s obtain x where "parse_chars [] cs = Some (x, rest)"
      by (auto simp: parse_scalar_def)
    from parse_chars_shorter [OF this] s show ?thesis by simp
  next
    case t
    with a s have "rest = drop 4 s" by (simp add: parse_scalar_def)
    with s show ?thesis by simp
  next
    case f
    with a s have "rest = drop 5 s" by (simp add: parse_scalar_def)
    with s show ?thesis by simp
  next
    case n
    with a s have "rest = drop 4 s" by (simp add: parse_scalar_def)
    with s show ?thesis by simp
  next
    case num
    with a s obtain x where "parse_number s = Some (x, rest)"
      by (auto simp: parse_scalar_def)
    from parse_number_shorter [OF this] show ?thesis .
  qed
qed

lemma parse_shorter:
  "(\<forall>v rest. parse_value s = Some (v, rest) \<longrightarrow> length rest < length s)"
  "(\<forall>v rest. parse_elements acc s = Some (v, rest) \<longrightarrow> length rest < length s)"
  "(\<forall>v rest. parse_members acc' s = Some (v, rest) \<longrightarrow> length rest < length s)"
proof (induction s and acc s and acc' s rule: parse_value_parse_elements_parse_members.induct)
  case (1 s)
  show ?case
  proof (intro allI impI)
    fix v rest assume a: "parse_value s = Some (v, rest)"
    then obtain c cs where sk: "skip_ws s = c # cs"
      by (subst (asm) parse_value.simps) (auto split: list.splits)
    note tail = skip_ws_tail [OF sk]
    show "length rest < length s"
    proof (cases "c = 0x7B")
      case True
      with a sk obtain d ds where sk2: "skip_ws cs = d # ds"
        by (subst (asm) parse_value.simps) (auto split: list.splits)
      show ?thesis
      proof (cases "d = 0x7D")
        case True
        with a sk sk2 \<open>c = 0x7B\<close> have "rest = ds"
          by (subst (asm) parse_value.simps) simp
        with skip_ws_tail [OF sk2] tail show ?thesis by simp
      next
        case False
        with a sk sk2 \<open>c = 0x7B\<close> have "parse_members [] cs = Some (v, rest)"
          by (subst (asm) parse_value.simps) simp
        with "1.IH"(1) [OF sk \<open>c = 0x7B\<close> sk2 False] tail show ?thesis by force
      qed
    next
      case nb: False
      show ?thesis
      proof (cases "c = 0x5B")
        case True
        with a sk nb obtain d ds where sk2: "skip_ws cs = d # ds"
          by (subst (asm) parse_value.simps) (auto split: list.splits)
        show ?thesis
        proof (cases "d = 0x5D")
          case True
          with a sk sk2 nb \<open>c = 0x5B\<close> have "rest = ds"
            by (subst (asm) parse_value.simps) simp
          with skip_ws_tail [OF sk2] tail show ?thesis by simp
        next
          case False
          with a sk sk2 nb \<open>c = 0x5B\<close> have "parse_elements [] cs = Some (v, rest)"
            by (subst (asm) parse_value.simps) simp
          with "1.IH"(2) [OF sk nb \<open>c = 0x5B\<close> sk2 False] tail show ?thesis by force
        qed
      next
        case False
        with a sk nb have "parse_scalar (c # cs) = Some (v, rest)"
          by (subst (asm) parse_value.simps) simp
        from parse_scalar_shorter [OF this] length_skip_ws [of s] sk show ?thesis
          by simp
      qed
    qed
  qed
next
  case (2 acc s)
  show ?case
  proof (intro allI impI)
    fix v rest assume a: "parse_elements acc s = Some (v, rest)"
    then obtain x r where pv: "parse_value s = Some (x, r)" and lt: "length r < length s"
      by (subst (asm) parse_elements.simps) (auto split: option.splits if_splits)
    with a obtain c cs where sk: "skip_ws r = c # cs"
      by (subst (asm) parse_elements.simps) (auto split: list.splits)
    note tail = skip_ws_tail [OF sk]
    show "length rest < length s"
    proof (cases "c = 0x2C")
      case True
      with a pv lt sk have "parse_elements (acc @ [x]) cs = Some (v, rest)"
        by (subst (asm) parse_elements.simps) simp
      with "2.IH"(2) [OF pv refl lt sk True] tail lt show ?thesis by force
    next
      case False
      with a pv lt sk have "rest = cs"
        by (subst (asm) parse_elements.simps) (simp split: if_splits)
      with tail lt show ?thesis by simp
    qed
  qed
next
  case (3 acc s)
  show ?case
  proof (intro allI impI)
    fix v rest assume a: "parse_members acc s = Some (v, rest)"
    then obtain c cs where sk: "skip_ws s = c # cs" and q: "c = 0x22"
      by (subst (asm) parse_members.simps) (auto split: list.splits if_splits)
    with a obtain key r where pc: "parse_chars [] cs = Some (key, r)"
      by (subst (asm) parse_members.simps) (auto split: option.splits)
    with a sk q obtain d ds where sk2: "skip_ws r = d # ds" and colon: "d = 0x3A"
      by (subst (asm) parse_members.simps) (auto split: list.splits if_splits)
    with a sk q pc obtain x r' where pv: "parse_value ds = Some (x, r')"
      and lt: "length r' < length ds"
      by (subst (asm) parse_members.simps) (auto split: option.splits if_splits)
    with a sk q pc sk2 colon obtain e es where sk3: "skip_ws r' = e # es"
      by (subst (asm) parse_members.simps) (auto split: list.splits)
    have chain: "length es < length s"
      using skip_ws_tail [OF sk] parse_chars_shorter [OF pc] skip_ws_tail [OF sk2] lt
        skip_ws_tail [OF sk3] by simp
    show "length rest < length s"
    proof (cases "e = 0x2C")
      case True
      with a sk q pc sk2 colon pv lt sk3
      have "parse_members (AList.update key x acc) es = Some (v, rest)"
        by (subst (asm) parse_members.simps) simp
      with "3.IH"(2) [OF sk q pc refl sk2 colon pv refl lt sk3 True] chain show ?thesis
        by force
    next
      case False
      with a sk q pc sk2 colon pv lt sk3 have "rest = es"
        by (subst (asm) parse_members.simps) (simp split: if_splits)
      with chain show ?thesis by simp
    qed
  qed
qed

text \<open>The length tests of the parser always pass: the equations hold without them.\<close>

lemma parse_elements_unguarded:
  "parse_elements acc s =
     (case parse_value s of
        None \<Rightarrow> None
      | Some (v, rest) \<Rightarrow>
          (case skip_ws rest of
             [] \<Rightarrow> None
           | c # cs \<Rightarrow>
               if c = 0x2C then parse_elements (acc @ [v]) cs
               else if c = 0x5D then Some (JArray (acc @ [v]), cs)
               else None))"
  by (subst parse_elements.simps) (simp add: parse_shorter split: option.splits)

lemma parse_members_unguarded:
  "parse_members acc s =
     (case skip_ws s of
        [] \<Rightarrow> None
      | c # cs \<Rightarrow>
          if c = 0x22 then
            (case parse_chars [] cs of
               None \<Rightarrow> None
             | Some (key, rest) \<Rightarrow>
                 (case skip_ws rest of
                    [] \<Rightarrow> None
                  | d # ds \<Rightarrow>
                      if d = 0x3A then
                        (case parse_value ds of
                           None \<Rightarrow> None
                         | Some (v, rest') \<Rightarrow>
                             (case skip_ws rest' of
                                [] \<Rightarrow> None
                              | e # es \<Rightarrow>
                                  if e = 0x2C then parse_members (AList.update key v acc) es
                                  else if e = 0x7D then Some (JObject (AList.update key v acc), es)
                                  else None))
                      else None))
          else None)"
  by (subst parse_members.simps) (simp add: parse_shorter split: option.splits list.splits)

section \<open>Properties of hydration\<close>

lemma hydrate_notebook_absent:
  "localStorage (js ''ai_dict_notebook'') = None \<or> localStorage (js ''ai_dict_notebook'') = Some [] \<Longrightarrow>
   hydrate_notebook localStorage initial_state = Inr initial_state
   \<and> notebook_value initial_state = JArray []"
  by (auto simp: hydrate_notebook_def initial_state_def)

lemma hydrate_unparseable:
  "localStorage (js ''ai_dict_notebook'') = Some saved \<Longrightarrow> saved \<noteq> [] \<Longrightarrow>
   JSON_parse saved = Inl e \<Longrightarrow> hydrate localStorage = Inl e"
  by (simp add: hydrate_def hydrate_notebook_def)

text \<open>
  Claim C8 at a failing input. The stored notebook is a truncated array, and nothing is
  stored for the setup: \<^verbatim>\<open>JSON.parse\<close> throws inside the effect, which has no handler,
  so the exception leaves hydration and the notebook is never set.
\<close>

theorem hydrate_truncated_blob:
  "hydrate [js ''ai_dict_notebook'' \<mapsto> js ''[{\"id\":''] = Inl SyntaxError"
  by (simp add: hydrate_def hydrate_notebook_def initial_state_def json_eval)

section \<open>Properties of the lookup\<close>

lemmas lookup_eval = performLookup_def lookup_try_def Let_def env_of_def idle_def language_name_def
  LANGUAGES_def text_or_default_def read_property_def first_candidate_parts_def new_entry_def
  spread_def decimal.simps no_image_response_def

lemma parse_hello: "JSON_parse hello_text = Inr hello_parsed"
  by (simp add: hello_text_def hello_parsed_def json_eval)

lemma lookup_hello:
  "performLookup (env_of hello_text (Inr no_image_response)) idle (js ''hello'') =
     \<lparr>final = \<lparr>native_code = js ''es'', target_code = js ''en'', loading = False,
               result_entry = Some (JObject hello_members), chatHistory = []\<rparr>,
      requests = [TextRequest (js ''hello'') (Some (js ''English'')) (Some (js ''Spanish'')),
                  ImageRequest (js ''hello'') (Some (JString (js ''a greeting'')))],
      console = []\<rparr>"
  by (simp add: lookup_eval json_eval hello_text_def hello_members_def)


lemma lookup_image_fails:
  "performLookup (env_of hello_text (Inl ServiceError)) idle (js ''hello'') =
     \<lparr>final = \<lparr>native_code = js ''es'', target_code = js ''en'', loading = False,
               result_entry = None, chatHistory = []\<rparr>,
      requests = [TextRequest (js ''hello'') (Some (js ''English'')) (Some (js ''Spanish'')),
                  ImageRequest (js ''hello'') (Some (JString (js ''a greeting'')))],
      console = [ServiceError]\<rparr>"
  by (simp add: lookup_eval json_eval hello_text_def)

lemma image_url_loop_no_inline:
  "\<forall>p \<in> set ps. inlineData p = None \<Longrightarrow> image_url_loop ps imgUrl = imgUrl"
  by (induction ps arbitrary: imgUrl) simp_all

lemma stamped_keys_distinct:
  "js ''id'' \<noteq> js ''imageUrl''" "js ''id'' \<noteq> js ''targetLang''" "js ''id'' \<noteq> js ''nativeLang''"
  "js ''imageUrl'' \<noteq> js ''targetLang''" "js ''imageUrl'' \<noteq> js ''nativeLang''"
  "js ''targetLang'' \<noteq> js ''nativeLang''"
  by (simp_all add: js_def)

lemma map_of_new_entry:
  "new_entry parsed now imgUrl t n = JObject members \<Longrightarrow>
   map_of members =
     (map_of (spread parsed))
       (js ''id'' \<mapsto> JString (decimal now), js ''imageUrl'' \<mapsto> JString imgUrl,
        js ''targetLang'' \<mapsto> JString t, js ''nativeLang'' \<mapsto> JString n)"
  by (auto simp: new_entry_def update_conv')




text \<open>
  Claim C2, as the code has it. After a text response that parses (to anything but
  \<^verbatim>\<open>null\<close>): when the image response has a first candidate with a list of parts and no
  part carries inline data, the lookup shows an entry with every member of the parsed
  response (but \<^verbatim>\<open>id\<close>, \<^verbatim>\<open>imageUrl\<close>, \<^verbatim>\<open>targetLang\<close>, \<^verbatim>\<open>nativeLang\<close>, which are set) and an
  empty \<^verbatim>\<open>imageUrl\<close>, and logs nothing; when the image request is rejected, the one
  \<^verbatim>\<open>catch\<close> of the lookup takes the exception: no entry is shown and the error is logged.
\<close>

theorem image_step_outcomes:
  assumes "generateContent env
             (TextRequest q (language_name (target_code st)) (language_name (native_code st))) = Inr r"
    and "JSON_parse (text_or_default (response_text r)) = Inr parsed"
    and "read_property parsed (js ''definition'') = Inr d"
  shows "(\<forall>ir ps. generateContent env (ImageRequest q d) = Inr ir
            \<and> first_candidate_parts ir = Inr ps \<and> (\<forall>p \<in> set ps. inlineData p = None) \<longrightarrow>
          (\<exists>members. result_entry (final (performLookup env st q)) = Some (JObject members)
             \<and> map_of members (js ''imageUrl'') = Some (JString [])
             \<and> (\<forall>k. k \<notin> {js ''id'', js ''imageUrl'', js ''targetLang'', js ''nativeLang''} \<longrightarrow>
                    map_of members k = map_of (spread parsed) k)
             \<and> console (performLookup env st q) = []))
    \<and> (\<forall>e. generateContent env (ImageRequest q d) = Inl e \<longrightarrow>
          result_entry (final (performLookup env st q)) = None
          \<and> \<not> loading (final (performLookup env st q))
          \<and> console (performLookup env st q) = [e])"
proof (intro conjI allI impI)
  fix ir ps
  assume a: "generateContent env (ImageRequest q d) = Inr ir
            \<and> first_candidate_parts ir = Inr ps \<and> (\<forall>p \<in> set ps. inlineData p = None)"
  then have url: "image_url_loop ps [] = []"
    by (simp add: image_url_loop_no_inline)
  obtain members where m:
    "new_entry parsed (Date_now env) [] (target_code st) (native_code st) = JObject members"
    by (simp add: new_entry_def)
  have res: "result_entry (final (performLookup env st q)) = Some (JObject members)"
    and con: "console (performLookup env st q) = []"
    using assms a url m by (simp_all add: performLookup_def lookup_try_def Let_def)
  note mo = map_of_new_entry [OF m]
  have "map_of members (js ''imageUrl'') = Some (JString [])"
    by (simp add: mo stamped_keys_distinct)
  moreover have "\<forall>k. k \<notin> {js ''id'', js ''imageUrl'', js ''targetLang'', js ''nativeLang''} \<longrightarrow>
                    map_of members k = map_of (spread parsed) k"
    by (simp add: mo)
  ultimately show "\<exists>members. result_entry (final (performLookup env st q)) = Some (JObject members)
             \<and> map_of members (js ''imageUrl'') = Some (JString [])
             \<and> (\<forall>k. k \<notin> {js ''id'', js ''imageUrl'', js ''targetLang'', js ''nativeLang''} \<longrightarrow>
                    map_of members k = map_of (spread parsed) k)
             \<and> console (performLookup env st q) = []"
    using res con by blast
next
  fix e assume "generateContent env (ImageRequest q d) = Inl e"
  with assms show "result_entry (final (performLookup env st q)) = None"
    "\<not> loading (final (performLookup env st q))"
    "console (performLookup env st q) = [e]"
    by (simp_all add: performLookup_def lookup_try_def Let_def)
qed

theorem image_step_outcomes_witness:
  "generateContent (env_of hello_text (Inr no_image_response))
     (TextRequest (js ''hello'') (language_name (target_code idle)) (language_name (native_code idle)))
     = Inr (Response None (Some hello_text))
   \<and> JSON_parse (text_or_default (response_text (Response None (Some hello_text)))) = Inr hello_parsed
   \<and> read_property hello_parsed (js ''definition'') = Inr (Some (JString (js ''a greeting'')))
   \<and> generateContent (env_of hello_text (Inr no_image_response))
        (ImageRequest (js ''hello'') (Some (JString (js ''a greeting'')))) = Inr no_image_response
   \<and> first_candidate_parts no_image_response = Inr [Part None]
   \<and> inlineData (Part None) = None
   \<and> (\<exists>members.
         result_entry (final (performLookup (env_of hello_text (Inr no_image_response)) idle (js ''hello'')))
           = Some (JObject members)
         \<and> map_of members (js ''imageUrl'') = Some (JString [])
         \<and> map_of members (js ''usage'') = Some (JString (js ''casual greeting'')))
   \<and> generateContent (env_of hello_text (Inl ServiceError))
        (ImageRequest (js ''hello'') (Some (JString (js ''a greeting'')))) = Inl ServiceError
   \<and> result_entry (final (performLookup (env_of hello_text (Inl ServiceError)) idle (js ''hello''))) = None
   \<and> console (performLookup (env_of hello_text (Inl ServiceError)) idle (js ''hello'')) = [ServiceError]"
proof -
  let ?d = "Some (JString (js ''a greeting''))"
  have t1: "generateContent (env_of hello_text (Inr no_image_response))
     (TextRequest (js ''hello'') (language_name (target_code idle)) (language_name (native_code idle)))
     = Inr (Response None (Some hello_text))"
    and t2: "generateContent (env_of hello_text (Inl ServiceError))
     (TextRequest (js ''hello'') (language_name (target_code idle)) (language_name (native_code idle)))
     = Inr (Response None (Some hello_text))"
    by (simp_all add: env_of_def)
  have nonempty: "hello_text \<noteq> []"
    by (simp add: hello_text_def js_def)
  have p: "JSON_parse (text_or_default (response_text (Response None (Some hello_text)))) = Inr hello_parsed"
    using nonempty by (simp add: text_or_default_def parse_hello)
  have d: "read_property hello_parsed (js ''definition'') = Inr ?d"
    by (simp add: read_property_def hello_parsed_def js_def)
  have i1: "generateContent (env_of hello_text (Inr no_image_response)) (ImageRequest (js ''hello'') ?d)
      = Inr no_image_response"
    and i2: "generateContent (env_of hello_text (Inl ServiceError)) (ImageRequest (js ''hello'') ?d)
      = Inl ServiceError"
    by (simp_all add: env_of_def)
  have ps: "first_candidate_parts no_image_response = Inr [Part None]"
    by (simp add: first_candidate_parts_def no_image_response_def)
  have usage: "map_of (spread hello_parsed) (js ''usage'') = Some (JString (js ''casual greeting''))"
    and key: "js ''usage'' \<notin> {js ''id'', js ''imageUrl'', js ''targetLang'', js ''nativeLang''}"
    by (simp_all add: spread_def hello_parsed_def js_def)
  from image_step_outcomes [OF t1 p d] i1 ps
  obtain members where
    "result_entry (final (performLookup (env_of hello_text (Inr no_image_response)) idle (js ''hello'')))
       = Some (JObject members)"
    "map_of members (js ''imageUrl'') = Some (JString [])"
    "\<forall>k. k \<notin> {js ''id'', js ''imageUrl'', js ''targetLang'', js ''nativeLang''} \<longrightarrow>
        map_of members k = map_of (spread hello_parsed) k"
    by force
  with usage key have ok: "\<exists>members.
         result_entry (final (performLookup (env_of hello_text (Inr no_image_response)) idle (js ''hello'')))
           = Some (JObject members)
         \<and> map_of members (js ''imageUrl'') = Some (JString [])
         \<and> map_of members (js ''usage'') = Some (JString (js ''casual greeting''))"
    by metis
  from image_step_outcomes [OF t2 p d] i2
  have failed: "result_entry (final (performLookup (env_of hello_text (Inl ServiceError)) idle (js ''hello''))) = None"
    "console (performLookup (env_of hello_text (Inl ServiceError)) idle (js ''hello'')) = [ServiceError]"
    by simp_all
  from t1 p d i1 ps ok i2 failed show ?thesis
    by simp
qed

theorem image_request_rejected_counterexample:
  "JSON_parse hello_text = Inr hello_parsed
   \<and> result_entry (final (performLookup (env_of hello_text (Inl ServiceError)) idle (js ''hello''))) = None
   \<and> requests (performLookup (env_of hello_text (Inl ServiceError)) idle (js ''hello'')) =
       [TextRequest (js ''hello'') (Some (js ''English'')) (Some (js ''Spanish'')),
        ImageRequest (js ''hello'') (Some (JString (js ''a greeting'')))]
   \<and> console (performLookup (env_of hello_text (Inl ServiceError)) idle (js ''hello'')) = [ServiceError]"
  by (simp add: lookup_image_fails parse_hello)


text \<open>
  Claim C7, as the code has it. The entry of a successful lookup takes its \<^verbatim>\<open>word\<close> from
  the parsed text response, like every field that is not set over it: it is the member
  \<^verbatim>\<open>word\<close> of that response, or missing when the response has none. The query goes into
  the two requests only.
\<close>

theorem entry_word_from_response:
  assumes "result_entry (final (performLookup env st q)) = Some entry"
  shows "\<exists>r parsed members.
      generateContent env
        (TextRequest q (language_name (target_code st)) (language_name (native_code st))) = Inr r
    \<and> JSON_parse (text_or_default (response_text r)) = Inr parsed
    \<and> entry = JObject members
    \<and> map_of members (js ''word'') = map_of (spread parsed) (js ''word'')"
proof -
  let ?treq = "TextRequest q (language_name (target_code st)) (language_name (native_code st))"
  from assms obtain sent where ok:
    "lookup_try env (native_code st) (target_code st) q = (sent, Inr entry)"
    by (auto simp: performLookup_def Let_def split: prod.splits sum.splits)
  then obtain r parsed d ir ps where
    r: "generateContent env ?treq = Inr r"
    and p: "JSON_parse (text_or_default (response_text r)) = Inr parsed"
    and e: "entry = new_entry parsed (Date_now env) (image_url_loop ps []) (target_code st) (native_code st)"
    by (auto simp: lookup_try_def Let_def split: sum.splits)
  obtain members where m: "entry = JObject members"
    by (simp add: e new_entry_def)
  from map_of_new_entry [OF e [symmetric, unfolded m]]
  have "map_of members (js ''word'') = map_of (spread parsed) (js ''word'')"
    by (simp add: js_def)
  with r p m show ?thesis
    by blast
qed

theorem entry_word_from_response_witness:
  "result_entry (final (performLookup (env_of hello_text (Inr no_image_response)) idle (js ''hello'')))
     = Some (JObject hello_members)
   \<and> (\<exists>r parsed members.
        generateContent (env_of hello_text (Inr no_image_response))
          (TextRequest (js ''hello'') (language_name (target_code idle)) (language_name (native_code idle)))
          = Inr r
        \<and> JSON_parse (text_or_default (response_text r)) = Inr parsed
        \<and> JObject hello_members = JObject members
        \<and> map_of members (js ''word'') = map_of (spread parsed) (js ''word''))"
proof -
  have shown: "result_entry (final (performLookup (env_of hello_text (Inr no_image_response)) idle (js ''hello'')))
     = Some (JObject hello_members)"
    by (simp add: lookup_hello)
  from entry_word_from_response [OF shown] shown show ?thesis
    by simp
qed

theorem entry_word_counterexample:
  "result_entry (final (performLookup (env_of hello_text (Inr no_image_response)) idle (js ''hello'')))
     = Some (JObject hello_members)
   \<and> map_of hello_members (js ''word'') = Some (JString (js ''Hello''))
   \<and> JString (js ''Hello'') \<noteq> JString (js ''hello'')"
  by (simp add: lookup_hello) (simp add: hello_members_def js_def)

end
